theory Spec2Isabelle
  imports Complex_Main "HOL-Library.Sublist" "HOL-Library.Word" "HOL-Library.Multiset"
begin

section \<open>Procedural asset generator: colour utilities\<close>

text \<open>
  The embedding follows \<^verbatim>\<open>scripts/generate_assets.py\<close>. Python strings are modelled
  as \<^typ>\<open>string\<close> (8-bit characters), Python integers as \<^typ>\<open>int\<close>, and Python
  floats as exact reals: every float operation of the source is read as the real
  operation it approximates. Exceptions are values of the type \<open>error\<close>.
\<close>

datatype error = ValueError | IndexError | KeyError

text \<open>Sequencing of fallible steps: the first exception raised is the result.\<close>

fun bind_err :: "error + 'a \<Rightarrow> ('a \<Rightarrow> error + 'b) \<Rightarrow> error + 'b" where
  "bind_err (Inl e) f = Inl e"
| "bind_err (Inr x) f = f x"

subsection \<open>Hexadecimal digits\<close>

text \<open>The value of one hexadecimal digit, in either case.\<close>

definition hex_val :: "char \<Rightarrow> int option" where
  "hex_val c =
     (let n = of_char c :: nat in
      if 48 \<le> n \<and> n \<le> 57 then Some (int n - 48)
      else if 97 \<le> n \<and> n \<le> 102 then Some (int n - 87)
      else if 65 \<le> n \<and> n \<le> 70 then Some (int n - 55)
      else None)"

text \<open>
  The characters that Python's \<^verbatim>\<open>int\<close> strips as white space, among the 8-bit ones.
\<close>

definition is_space :: "char \<Rightarrow> bool" where
  "is_space c =
     (let n = of_char c :: nat in
      (9 \<le> n \<and> n \<le> 13) \<or> (28 \<le> n \<and> n \<le> 32) \<or> n = 133 \<or> n = 160)"

text \<open>
  \<^verbatim>\<open>int(s, 16)\<close> on the two-character slices that \<^verbatim>\<open>hex_to_rgba\<close> takes: two digits,
  or one digit with a sign or with white space on one side; anything else raises
  \<^verbatim>\<open>ValueError\<close>.
\<close>

fun int16 :: "string \<Rightarrow> error + int" where
  "int16 [c, d] =
     (case (hex_val c, hex_val d) of
        (Some x, Some y) \<Rightarrow> Inr (16 * x + y)
      | (None, Some y) \<Rightarrow>
          if c = CHR ''+'' \<or> is_space c then Inr y
          else if c = CHR ''-'' then Inr (- y)
          else Inl ValueError
      | (Some x, None) \<Rightarrow> if is_space d then Inr x else Inl ValueError
      | (None, None) \<Rightarrow> Inl ValueError)"
| "int16 _ = Inl ValueError"

subsection \<open>\<^verbatim>\<open>hex_to_rgba\<close>\<close>

text \<open>\<^verbatim>\<open>hex_color.lstrip('#')\<close> removes every leading \<^verbatim>\<open>#\<close>.\<close>

definition lstrip_hash :: "string \<Rightarrow> string" where
  "lstrip_hash s = dropWhile (\<lambda>c. c = CHR ''#'') s"

text \<open>The slice \<^verbatim>\<open>s[i:j]\<close> for \<open>0 \<le> i \<le> j\<close>.\<close>

definition slice :: "string \<Rightarrow> nat \<Rightarrow> nat \<Rightarrow> string" where
  "slice s i j = take (j - i) (drop i s)"

type_synonym rgba = "int \<times> int \<times> int \<times> int"

definition hex_to_rgba :: "string \<Rightarrow> error + rgba" where
  "hex_to_rgba hex_color0 =
     (let hex_color = lstrip_hash hex_color0 in
      if length hex_color = 6 then
        bind_err (int16 (slice hex_color 0 2)) (\<lambda>r.
        bind_err (int16 (slice hex_color 2 4)) (\<lambda>g.
        bind_err (int16 (slice hex_color 4 6)) (\<lambda>b.
        Inr (r, g, b, 255))))
      else if length hex_color = 8 then
        bind_err (int16 (slice hex_color 0 2)) (\<lambda>r.
        bind_err (int16 (slice hex_color 2 4)) (\<lambda>g.
        bind_err (int16 (slice hex_color 4 6)) (\<lambda>b.
        bind_err (int16 (slice hex_color 6 8)) (\<lambda>a.
        Inr (r, g, b, a)))))
      else Inl ValueError)"

subsection \<open>\<^verbatim>\<open>rgb_to_hex\<close>\<close>

text \<open>One lowercase hexadecimal digit, for a value below 16.\<close>

definition hex_digit :: "nat \<Rightarrow> char" where
  "hex_digit n = (if n < 10 then char_of (48 + n) else char_of (87 + n))"

text \<open>The hexadecimal digits of a natural number, most significant first.\<close>

fun hex_digits :: "nat \<Rightarrow> string" where
  "hex_digits n =
     (if n < 16 then [hex_digit n] else hex_digits (n div 16) @ [hex_digit (n mod 16)])"

declare hex_digits.simps [simp del]

text \<open>
  The format \<^verbatim>\<open>{n:02x}\<close>: lowercase hexadecimal, padded with zeros to a width of two, the
  sign of a negative number counting towards the width.
\<close>

definition format_02x :: "int \<Rightarrow> string" where
  "format_02x n =
     (if n < 0 then CHR ''-'' # hex_digits (nat (- n))
      else let ds = hex_digits (nat n) in replicate (2 - length ds) CHR ''0'' @ ds)"

text \<open>
  \<^verbatim>\<open>rgb_to_hex\<close> reads the first three components of its argument; it is called on
  triples and, in the round trip, on the 4-tuple of \<^verbatim>\<open>hex_to_rgba\<close>.
\<close>

definition rgb_to_hex :: "int \<times> int \<times> int \<Rightarrow> string" where
  "rgb_to_hex rgb =
     (case rgb of (r, g, b) \<Rightarrow> CHR ''#'' # format_02x r @ format_02x g @ format_02x b)"

definition rgb_of :: "rgba \<Rightarrow> int \<times> int \<times> int" where
  "rgb_of c = (case c of (r, g, b, a) \<Rightarrow> (r, g, b))"

text \<open>The round trip of the two conversions, \<^verbatim>\<open>rgb_to_hex(hex_to_rgba(c))\<close>.\<close>

definition round_trip :: "string \<Rightarrow> error + string" where
  "round_trip c = bind_err (hex_to_rgba c) (\<lambda>v. Inr (rgb_to_hex (rgb_of v)))"

text \<open>Character classes used to state properties: lowercase and any-case digits.\<close>

definition is_lower_hex :: "char \<Rightarrow> bool" where
  "is_lower_hex c = (let n = of_char c :: nat in (48 \<le> n \<and> n \<le> 57) \<or> (97 \<le> n \<and> n \<le> 102))"

definition is_hex :: "char \<Rightarrow> bool" where
  "is_hex c = (hex_val c \<noteq> None)"

text \<open>A colour of the configuration format: \<^verbatim>\<open>#\<close> and six or eight hexadecimal digits.\<close>

definition valid_color :: "string \<Rightarrow> bool" where
  "valid_color c =
     (case c of
        [] \<Rightarrow> False
      | h # ds \<Rightarrow> h = CHR ''#'' \<and> (length ds = 6 \<or> length ds = 8) \<and> list_all is_hex ds)"

text \<open>The range of a channel of a colour.\<close>

definition channel :: "int \<Rightarrow> bool" where
  "channel v = (0 \<le> v \<and> v \<le> 255)"

subsection \<open>Float helpers\<close>

text \<open>\<^verbatim>\<open>int(x)\<close> truncates towards zero; \<^verbatim>\<open>x % y\<close> takes the sign of a positive \<open>y\<close>.\<close>

definition py_int :: "real \<Rightarrow> int" where
  "py_int x = (if 0 \<le> x then \<lfloor>x\<rfloor> else \<lceil>x\<rceil>)"

definition py_fmod :: "real \<Rightarrow> real \<Rightarrow> real" where
  "py_fmod x y = x - y * of_int \<lfloor>x / y\<rfloor>"

subsection \<open>\<^verbatim>\<open>hsl_to_rgb\<close>\<close>

definition hue_to_rgb :: "real \<Rightarrow> real \<Rightarrow> real \<Rightarrow> real" where
  "hue_to_rgb p q t0 =
     (let t1 = (if t0 < 0 then t0 + 1 else t0);
          t = (if t1 > 1 then t1 - 1 else t1)
      in if t < 1 / 6 then p + (q - p) * 6 * t
         else if t < 1 / 2 then q
         else if t < 2 / 3 then p + (q - p) * (2 / 3 - t) * 6
         else p)"

definition hsl_channels :: "real \<Rightarrow> real \<Rightarrow> real \<Rightarrow> real \<times> real \<times> real" where
  "hsl_channels h s l =
     (if s = 0 then (l, l, l)
      else
        let q = (if l < 0.5 then l * (1 + s) else l + s - l * s);
            p = 2 * l - q
        in (hue_to_rgb p q (h + 1 / 3), hue_to_rgb p q h, hue_to_rgb p q (h - 1 / 3)))"

definition hsl_to_rgb :: "real \<Rightarrow> real \<Rightarrow> real \<Rightarrow> int \<times> int \<times> int" where
  "hsl_to_rgb h s l =
     (case hsl_channels h s l of
        (r, g, b) \<Rightarrow> (py_int (r * 255), py_int (g * 255), py_int (b * 255)))"

subsection \<open>\<^verbatim>\<open>rotate_hue\<close>\<close>

text \<open>
  The hue (in degrees), saturation and lightness that \<^verbatim>\<open>rotate_hue\<close> computes from the
  channels of its argument, as three functions of the colour.
\<close>

definition norm_max :: "rgba \<Rightarrow> real" where
  "norm_max c =
     (case c of (r, g, b, a) \<Rightarrow>
        max (real_of_int r / 255) (max (real_of_int g / 255) (real_of_int b / 255)))"

definition norm_min :: "rgba \<Rightarrow> real" where
  "norm_min c =
     (case c of (r, g, b, a) \<Rightarrow>
        min (real_of_int r / 255) (min (real_of_int g / 255) (real_of_int b / 255)))"

definition hue_degrees :: "rgba \<Rightarrow> real" where
  "hue_degrees c =
     (case c of (r, g, b, a) \<Rightarrow>
        let r_norm = real_of_int r / 255;
            g_norm = real_of_int g / 255;
            b_norm = real_of_int b / 255;
            cmax = norm_max c;
            cmin = norm_min c;
            delta = cmax - cmin;
            h = (if delta = 0 then 0
                 else if cmax = r_norm then py_fmod ((g_norm - b_norm) / delta) 6
                 else if cmax = g_norm then ((b_norm - r_norm) / delta) + 2
                 else ((r_norm - g_norm) / delta) + 4)
        in h * 60)"

definition saturation :: "rgba \<Rightarrow> real" where
  "saturation c =
     (let cmax = norm_max c; cmin = norm_min c; delta = cmax - cmin
      in if cmax = 0 then 0 else delta / cmax)"

definition lightness :: "rgba \<Rightarrow> real" where
  "lightness c = (norm_max c + norm_min c) / 2"

definition rotate_hue :: "string \<Rightarrow> real \<Rightarrow> error + string" where
  "rotate_hue hex_color degrees =
     bind_err (hex_to_rgba hex_color) (\<lambda>c.
       let h = py_fmod (hue_degrees c + degrees) 360;
           new_rgb = hsl_to_rgb (h / 360) (saturation c) (lightness c)
       in Inr (rgb_to_hex new_rgb))"

subsection \<open>\<^verbatim>\<open>check_contrast_ratio\<close>\<close>




subsection \<open>\<^verbatim>\<open>next_power_of_2\<close>\<close>

text \<open>\<^verbatim>\<open>n.bit_length()\<close>: the number of binary digits of the absolute value.\<close>

fun nat_bit_length :: "nat \<Rightarrow> nat" where
  "nat_bit_length n = (if n = 0 then 0 else Suc (nat_bit_length (n div 2)))"

declare nat_bit_length.simps [simp del]

definition bit_length :: "int \<Rightarrow> nat" where
  "bit_length i = nat_bit_length (nat \<bar>i\<bar>)"

definition next_power_of_2 :: "real \<Rightarrow> nat" where
  "next_power_of_2 n = 2 ^ bit_length (py_int n - 1)"

section \<open>Configuration validation\<close>








section \<open>Pixel grid generation\<close>

record asset_config =
  cfg_name :: string
  cfg_type :: string
  cfg_size :: "int \<times> int"
  cfg_palette :: "string list"
  cfg_noise_seed :: "int option"
  cfg_anchor :: "real \<times> real"
  cfg_variants :: int

text \<open>
  What the generator takes from outside the repository: the interpreter's \<^verbatim>\<open>hash\<close> of
  a string and the \<^verbatim>\<open>noise2\<close> of the OpenSimplex generator made from a seed.
\<close>

record runtime =
  py_hash :: "string \<Rightarrow> int"
  noise2 :: "int \<Rightarrow> real \<Rightarrow> real \<Rightarrow> real"

text \<open>
  A pixel of the \<^verbatim>\<open>uint8\<close> array, and a grid as its list of rows. Storing a channel
  value reduces it modulo 256; the channels of a valid colour are stored unchanged.
\<close>

type_synonym pixel = "8 word \<times> 8 word \<times> 8 word \<times> 8 word"

type_synonym grid = "pixel list list"

definition to_pixel :: "rgba \<Rightarrow> pixel" where
  "to_pixel c = (case c of (r, g, b, a) \<Rightarrow> (word_of_int r, word_of_int g, word_of_int b, word_of_int a))"

definition alpha :: "pixel \<Rightarrow> 8 word" where
  "alpha px = (case px of (r, g, b, a) \<Rightarrow> a)"

fun map_err :: "('a \<Rightarrow> error + 'b) \<Rightarrow> 'a list \<Rightarrow> error + 'b list" where
  "map_err f [] = Inr []"
| "map_err f (x # xs) =
     bind_err (f x) (\<lambda>y. bind_err (map_err f xs) (\<lambda>ys. Inr (y # ys)))"

text \<open>Step 2: the palette of a variant, every colour rotated by 30 degrees per variant.\<close>

definition variant_palette :: "asset_config \<Rightarrow> int \<Rightarrow> error + string list" where
  "variant_palette config variant_idx =
     (if variant_idx > 0 \<and> cfg_type config = ''npc''
      then map_err (\<lambda>color. rotate_hue color (30 * real_of_int variant_idx)) (cfg_palette config)
      else Inr (cfg_palette config))"

text \<open>Step 3, tiles: the seed, and the pixel at \<open>(x, y)\<close> from the noise field.\<close>

definition tile_seed :: "runtime \<Rightarrow> asset_config \<Rightarrow> int" where
  "tile_seed rt config =
     (case cfg_noise_seed config of
        None \<Rightarrow> py_hash rt (cfg_name config) mod 1000
      | Some seed \<Rightarrow> seed)"

definition clip :: "int \<Rightarrow> int \<Rightarrow> int \<Rightarrow> int" where
  "clip v lo hi = min (max v lo) hi"

definition tile_pixel :: "runtime \<Rightarrow> int \<Rightarrow> string list \<Rightarrow> nat \<Rightarrow> nat \<Rightarrow> nat \<Rightarrow> nat \<Rightarrow> error + pixel" where
  "tile_pixel rt seed palette width height y x =
     (let nx = real x / real width * 10;
          ny = real y / real height * 10;
          noise = noise2 rt seed nx ny;
          noise_normalized = (noise + 1) / 2;
          palette_idx = clip (py_int (noise_normalized * real (length palette)))
                          0 (int (length palette) - 1)
      in if palette_idx < 0 then Inl IndexError
         else bind_err (hex_to_rgba (palette ! nat palette_idx)) (\<lambda>c. Inr (to_pixel c)))"

text \<open>
  Step 3, shapes. The inset that the shape loop paints: sprites of at least 8 by 8,
  two pixels in from each side.
\<close>

definition in_inset :: "nat \<Rightarrow> nat \<Rightarrow> nat \<Rightarrow> nat \<Rightarrow> bool" where
  "in_inset width height y x =
     (width \<ge> 8 \<and> height \<ge> 8
      \<and> 2 \<le> x \<and> int x < int width - 2 \<and> 2 \<le> y \<and> int y < int height - 2)"

text \<open>
  The pixel at \<open>(x, y)\<close> after the solid fill with \<open>base\<close> and the loop that paints
  the inset.
\<close>

definition shape_pixel ::
    "string \<Rightarrow> string list \<Rightarrow> string \<Rightarrow> rgba \<Rightarrow> nat \<Rightarrow> nat \<Rightarrow> nat \<Rightarrow> nat \<Rightarrow> error + pixel" where
  "shape_pixel asset_type palette base_color base width height y x =
     (let fill = (case base of (r, g, b, a) \<Rightarrow> to_pixel (r, g, b, if a < 255 then a else 255))
      in if in_inset width height y x
         then
           if asset_type = ''npc'' then
             if real y < real height * 0.7 then
               bind_err (if length palette > 1 then Inr (palette ! 1) else rotate_hue base_color 30)
                 (\<lambda>color_hex. bind_err (hex_to_rgba color_hex) (\<lambda>c. Inr (to_pixel c)))
             else Inr fill
           else
             if length palette > 1 then bind_err (hex_to_rgba (palette ! 1)) (\<lambda>c. Inr (to_pixel c))
             else Inr fill
         else Inr fill)"

text \<open>The grid of a function of the position, row by row.\<close>

definition build_grid :: "nat \<Rightarrow> nat \<Rightarrow> (nat \<Rightarrow> nat \<Rightarrow> error + pixel) \<Rightarrow> error + grid" where
  "build_grid width height f = map_err (\<lambda>y. map_err (\<lambda>x. f y x) [0..<width]) [0..<height]"

subsection \<open>\<^verbatim>\<open>detect_edges\<close>\<close>

definition gray :: "pixel \<Rightarrow> real" where
  "gray px = (case px of (r, g, b, a) \<Rightarrow>
     0.299 * real (unat r) + 0.587 * real (unat g) + 0.114 * real (unat b))"

definition kernel_x :: "real list list" where
  "kernel_x = [[-1, 0, 1], [-2, 0, 2], [-1, 0, 1]]"

definition kernel_y :: "real list list" where
  "kernel_y = [[-1, -2, -1], [0, 0, 0], [1, 2, 1]]"

text \<open>
  The padded luma field at row \<open>i\<close> and column \<open>j\<close>: the field itself, extended by one
  pixel on each side with the nearest edge value.
\<close>

definition padded :: "grid \<Rightarrow> nat \<Rightarrow> nat \<Rightarrow> real" where
  "padded g i j =
     (let y = min (i - 1) (length g - 1);
          x = min (j - 1) (length (g ! y) - 1)
      in gray (g ! y ! x))"

definition convolve :: "real list list \<Rightarrow> grid \<Rightarrow> nat \<Rightarrow> nat \<Rightarrow> real" where
  "convolve kern g y x =
     (\<Sum>i \<leftarrow> [0..<3]. \<Sum>j \<leftarrow> [0..<3]. padded g (y + i) (x + j) * (kern ! i ! j))"

text \<open>The magnitude, clipped to \<open>[0, 255]\<close> and truncated to \<^verbatim>\<open>uint8\<close>.\<close>

definition edge_value :: "grid \<Rightarrow> nat \<Rightarrow> nat \<Rightarrow> 8 word" where
  "edge_value g y x =
     (let edges = sqrt ((convolve kernel_x g y x)\<^sup>2 + (convolve kernel_y g y x)\<^sup>2)
      in word_of_int (py_int (min (max edges 0) 255)))"

text \<open>
  Step 4: the outline. Padding an empty field raises \<^verbatim>\<open>ValueError\<close>.
\<close>

definition outline :: "nat \<Rightarrow> nat \<Rightarrow> grid \<Rightarrow> error + grid" where
  "outline width height g =
     (if width = 0 \<or> height = 0 then Inl ValueError
      else Inr (map (\<lambda>y. map (\<lambda>x. if edge_value g y x > 50 then (0, 0, 0, 255) else g ! y ! x)
                             [0..<width]) [0..<height]))"

subsection \<open>\<^verbatim>\<open>generate_pixel_grid\<close>\<close>

definition generate_pixel_grid :: "runtime \<Rightarrow> asset_config \<Rightarrow> int \<Rightarrow> error + grid" where
  "generate_pixel_grid rt config variant_idx =
     (case cfg_size config of (w, h) \<Rightarrow>
        if w < 0 \<or> h < 0 then Inl ValueError
        else
          let width = nat w; height = nat h in
          bind_err (variant_palette config variant_idx) (\<lambda>palette.
          bind_err
            (if cfg_type config = ''tile'' then
               build_grid width height (tile_pixel rt (tile_seed rt config) palette width height)
             else if palette = [] then Inl IndexError
             else
               bind_err (hex_to_rgba (palette ! 0)) (\<lambda>base.
                 build_grid width height
                   (shape_pixel (cfg_type config) palette (palette ! 0) base width height)))
            (\<lambda>g.
               if cfg_type config \<in> set [''prop'', ''furniture'', ''clutter'']
               then outline width height g
               else Inr g)))"

text \<open>The pixel at row \<open>y\<close> and column \<open>x\<close> of a generated grid, if there is one.\<close>

definition pixel_at :: "error + grid \<Rightarrow> nat \<Rightarrow> nat \<Rightarrow> pixel option" where
  "pixel_at result y x =
     (case result of
        Inl e \<Rightarrow> None
      | Inr g \<Rightarrow> if y < length g \<and> x < length (g ! y) then Some (g ! y ! x) else None)"

text \<open>The asset types whose grid gets the edge outline.\<close>

definition outlined_type :: "string \<Rightarrow> bool" where
  "outlined_type t = (t \<in> set [''prop'', ''furniture'', ''clutter''])"


definition grass_config :: asset_config where
  "grass_config =
     \<lparr>cfg_name = ''grass'', cfg_type = ''tile'', cfg_size = (4, 4),
      cfg_palette = [''#000000'', ''#ffffff''], cfg_noise_seed = None,
      cfg_anchor = (0.5, 0.5), cfg_variants = 1\<rparr>"

definition ghost_config :: asset_config where
  "ghost_config =
     \<lparr>cfg_name = ''ghost'', cfg_type = ''npc'', cfg_size = (16, 32),
      cfg_palette = [''#1e4a8c80''], cfg_noise_seed = None,
      cfg_anchor = (0.5, 0.5), cfg_variants = 2\<rparr>"

text \<open>
  Two runs with the same noise source, in which the interpreter's hash of a name
  differs; the noise source depends on the seed.
\<close>

definition runtime_a :: runtime where
  "runtime_a = \<lparr>py_hash = (\<lambda>s. 0), noise2 = (\<lambda>seed x y. if seed = 0 then - 1 / 2 else 1 / 2)\<rparr>"

definition runtime_b :: runtime where
  "runtime_b = \<lparr>py_hash = (\<lambda>s. 1), noise2 = (\<lambda>seed x y. if seed = 0 then - 1 / 2 else 1 / 2)\<rparr>"

section \<open>Atlas packing\<close>

text \<open>
  \<^verbatim>\<open>pack_sprites\<close> reads the name and the shape \<open>(h, w)\<close> of each sprite: the sprites are
  the items of the dictionary, in insertion order, each a name with its shape. The
  atlas is represented by its side length; its pixels are not modelled.
\<close>

type_synonym sprite = "string \<times> nat \<times> nat"

definition sprite_h :: "sprite \<Rightarrow> nat" where
  "sprite_h s = (case s of (name, h, w) \<Rightarrow> h)"

definition sprite_w :: "sprite \<Rightarrow> nat" where
  "sprite_w s = (case s of (name, h, w) \<Rightarrow> w)"

text \<open>
  \<^verbatim>\<open>sorted(..., key=height, reverse=True)\<close>: Python's sort is stable, also when reversed,
  so this is the stable sort on the negated key.
\<close>

definition sorted_sprites :: "sprite list \<Rightarrow> sprite list" where
  "sorted_sprites sprites = sort_key (\<lambda>s. - int (sprite_h s)) sprites"

fun total_area :: "sprite list \<Rightarrow> nat" where
  "total_area [] = 0"
| "total_area ((name, h, w) # rest) = w * h + total_area rest"

definition initial_atlas_size :: "sprite list \<Rightarrow> nat" where
  "initial_atlas_size sprites =
     (let atlas_size_float = sqrt (real (total_area (sorted_sprites sprites))) * 1.2
      in next_power_of_2 (real_of_int (py_int atlas_size_float)))"

record frame =
  frame_x :: nat
  frame_y :: nat
  frame_w :: nat
  frame_h :: nat
  rotated :: bool
  trimmed :: bool
  source_w :: nat
  source_h :: nat
  anchor_x :: real
  anchor_y :: real

record pack_state =
  atlas_size :: nat
  current_x :: nat
  current_y :: nat
  row_height :: nat
  frames :: "(string \<times> frame) list"

text \<open>\<^verbatim>\<open>name.split("_variant_")[0]\<close>: the text before the first occurrence, or all of it.\<close>

fun before_first :: "string \<Rightarrow> string \<Rightarrow> string" where
  "before_first sep [] = []"
| "before_first sep (c # cs) = (if prefix sep (c # cs) then [] else c # before_first sep cs)"

definition base_name :: "string \<Rightarrow> string" where
  "base_name name = before_first ''_variant_'' name"

text \<open>The two checks at the head of the loop body: a new row, then growth.\<close>

definition start_row :: "nat \<Rightarrow> pack_state \<Rightarrow> pack_state" where
  "start_row w st =
     (if current_x st + w > atlas_size st
      then st\<lparr>current_x := 0, current_y := current_y st + row_height st, row_height := 0\<rparr>
      else st)"

definition grow :: "nat \<Rightarrow> pack_state \<Rightarrow> pack_state" where
  "grow h st =
     (if current_y st + h > atlas_size st
      then st\<lparr>atlas_size := next_power_of_2 (real (atlas_size st) * 1.5)\<rparr>
      else st)"

definition place :: "string \<Rightarrow> nat \<Rightarrow> nat \<Rightarrow> real \<times> real \<Rightarrow> pack_state \<Rightarrow> pack_state" where
  "place name h w anchor st =
     st\<lparr>frames := frames st @
            [(name, \<lparr>frame_x = current_x st, frame_y = current_y st, frame_w = w, frame_h = h,
                     rotated = False, trimmed = False, source_w = w, source_h = h,
                     anchor_x = fst anchor, anchor_y = snd anchor\<rparr>)],
        current_x := current_x st + w,
        row_height := max (row_height st) h\<rparr>"

fun pack_loop :: "(string \<rightharpoonup> asset_config) \<Rightarrow> sprite list \<Rightarrow> pack_state \<Rightarrow> error + pack_state" where
  "pack_loop configs [] st = Inr st"
| "pack_loop configs ((name, h, w) # rest) st =
     (let st' = grow h (start_row w st)
      in case configs (base_name name) of
           None \<Rightarrow> Inl KeyError
         | Some config \<Rightarrow> pack_loop configs rest (place name h w (cfg_anchor config) st'))"

definition pack_sprites ::
    "sprite list \<Rightarrow> (string \<rightharpoonup> asset_config) \<Rightarrow> error + nat \<times> (string \<times> frame) list" where
  "pack_sprites sprites configs =
     bind_err
       (pack_loop configs (sorted_sprites sprites)
          \<lparr>atlas_size = initial_atlas_size sprites, current_x = 0, current_y = 0,
           row_height = 0, frames = []\<rparr>)
       (\<lambda>st. Inr (atlas_size st, frames st))"

text \<open>A frame lies within an atlas of the given side.\<close>

definition within_atlas :: "nat \<Rightarrow> frame \<Rightarrow> bool" where
  "within_atlas side f = (frame_x f + frame_w f \<le> side \<and> frame_y f + frame_h f \<le> side)"

text \<open>
  Two frames overlap; a frame lies on a finished shelf or on the current one; and the
  invariant of the packing loop: the recorded frames are pairwise disjoint and shelved.
\<close>

definition overlap :: "frame \<Rightarrow> frame \<Rightarrow> bool" where
  "overlap f g =
     (frame_x f < frame_x g + frame_w g \<and> frame_x g < frame_x f + frame_w f
      \<and> frame_y f < frame_y g + frame_h g \<and> frame_y g < frame_y f + frame_h f)"

definition shelved :: "pack_state \<Rightarrow> frame \<Rightarrow> bool" where
  "shelved st f =
     (frame_y f + frame_h f \<le> current_y st
      \<or> (frame_y f = current_y st \<and> frame_x f + frame_w f \<le> current_x st
          \<and> frame_h f \<le> row_height st))"

definition packed :: "pack_state \<Rightarrow> bool" where
  "packed st =
     (sorted_wrt (\<lambda>f g. \<not> overlap f g) (map snd (frames st))
      \<and> list_all (shelved st) (map snd (frames st)))"

text \<open>The \<^verbatim>\<open>bench\<close> entry of \<^verbatim>\<open>create_test_config\<close>, as \<^verbatim>\<open>parse_config\<close> builds it.\<close>

definition bench_config :: asset_config where
  "bench_config =
     \<lparr>cfg_name = ''bench'', cfg_type = ''prop'', cfg_size = (32, 16),
      cfg_palette = [''#5d2906'', ''#3a1a04''], cfg_noise_seed = None,
      cfg_anchor = (0.5, 0.8), cfg_variants = 1\<rparr>"

section \<open>The specification's formulas\<close>

text \<open>
  The initial side as the specification words it: the sum of the areas times 1.2, its
  square root, rounded up to the next power of two.
\<close>

definition claimed_initial_side :: "sprite list \<Rightarrow> nat" where
  "claimed_initial_side sprites =
     (LEAST p. (\<exists>k. p = 2 ^ k)
        \<and> sqrt (1.2 * real (\<Sum>s \<leftarrow> sprites. sprite_w s * sprite_h s)) \<le> real p)"

text \<open>
  The validation rules as the specification words them: the three rules per asset, the
  contrast rule on consecutive palette pairs only, and the messages an asset earns.
\<close>








text \<open>
  Names for the two levels \<open>q\<close> and \<open>p\<close> of \<^verbatim>\<open>hsl_to_rgb\<close>, between which every channel
  lies.
\<close>

definition hsl_q :: "real \<Rightarrow> real \<Rightarrow> real" where
  "hsl_q s l = (if l < 0.5 then l * (1 + s) else l + s - l * s)"

definition hsl_p :: "real \<Rightarrow> real \<Rightarrow> real" where
  "hsl_p s l = 2 * l - hsl_q s l"

text \<open>The largest and the smallest channel that hsl_to_rgb hands to the truncation.\<close>

definition top_level :: "real \<Rightarrow> real \<Rightarrow> real" where
  "top_level s l = (if s = 0 then l else hsl_q s l)"

definition bottom_level :: "real \<Rightarrow> real \<Rightarrow> real" where
  "bottom_level s l = (if s = 0 then l else hsl_p s l)"

section \<open>Properties of the colour conversions\<close>

lemma hex_val_lower:
  assumes "is_lower_hex c"
  shows "\<exists>x. hex_val c = Some x \<and> 0 \<le> x \<and> x < 16 \<and> hex_digit (nat x) = c"
proof -
  let ?n = "of_char c :: nat"
  have c: "char_of ?n = c" by simp
  from assms consider "48 \<le> ?n \<and> ?n \<le> 57" | "97 \<le> ?n \<and> ?n \<le> 102"
    by (auto simp: is_lower_hex_def Let_def)
  then show ?thesis
  proof cases
    case 1
    then have "hex_val c = Some (int ?n - 48)" by (simp add: hex_val_def Let_def)
    moreover have "hex_digit (nat (int ?n - 48)) = c"
    proof -
      have "nat (int ?n - 48) = ?n - 48" by linarith
      moreover have "?n - 48 < 10" "48 + (?n - 48) = ?n" using 1 by linarith+
      ultimately show ?thesis using c by (simp add: hex_digit_def)
    qed
    ultimately show ?thesis using 1 by auto
  next
    case 2
    then have "hex_val c = Some (int ?n - 87)" by (simp add: hex_val_def Let_def)
    moreover have "hex_digit (nat (int ?n - 87)) = c"
    proof -
      have "nat (int ?n - 87) = ?n - 87" by linarith
      moreover have "\<not> ?n - 87 < 10" "87 + (?n - 87) = ?n" using 2 by linarith+
      ultimately show ?thesis using c by (simp add: hex_digit_def)
    qed
    ultimately show ?thesis using 2 by auto
  qed
qed

lemma hex_digit_0: "hex_digit 0 = CHR ''0''"
  by (simp add: hex_digit_def char_of_eq_iff)

lemma format_02x_two_digits:
  assumes "0 \<le> x" "x < 16" "0 \<le> y" "y < 16"
  shows "format_02x (16 * x + y) = [hex_digit (nat x), hex_digit (nat y)]"
proof -
  have n: "nat (16 * x + y) = 16 * nat x + nat y" using assms by linarith
  have y: "nat y < 16" using assms by linarith
  show ?thesis
  proof (cases "x = 0")
    case True
    then show ?thesis using assms y
      by (simp add: format_02x_def hex_digits.simps [of "nat y"] hex_digit_0 Let_def)
  next
    case False
    then have x: "0 < nat x" "nat x < 16" using assms by linarith+
    have "hex_digits (16 * nat x + nat y) = [hex_digit (nat x), hex_digit (nat y)]"
      using x y by (simp add: hex_digits.simps [of "16 * nat x + nat y"] hex_digits.simps [of "nat x"])
    then show ?thesis using assms n by (simp add: format_02x_def Let_def)
  qed
qed

lemma int16_format:
  assumes "is_lower_hex c" "is_lower_hex d"
  shows "\<exists>v. int16 [c, d] = Inr v \<and> 0 \<le> v \<and> v \<le> 255 \<and> format_02x v = [c, d]"
proof -
  from hex_val_lower [OF assms(1)] obtain x where x: "hex_val c = Some x" "0 \<le> x" "x < 16" "hex_digit (nat x) = c" by blast
  from hex_val_lower [OF assms(2)] obtain y where y: "hex_val d = Some y" "0 \<le> y" "y < 16" "hex_digit (nat y) = d" by blast
  show ?thesis using x y format_02x_two_digits [of x y] by simp
qed

lemma lower_hex_not_hash: "is_lower_hex c \<Longrightarrow> c \<noteq> CHR ''#''"
  by (auto simp: is_lower_hex_def)

text \<open>
  C9 (as amended). For every colour written as \<^verbatim>\<open>#\<close> and six lowercase hexadecimal
  digits, converting to RGBA and back gives the same string.
\<close>

theorem hex_round_trip_lowercase:
  assumes "length ds = 6" "list_all is_lower_hex ds"
  shows "round_trip (CHR ''#'' # ds) = Inr (CHR ''#'' # ds)"
proof -
  from assms(1) obtain c1 c2 c3 c4 c5 c6 where ds: "ds = [c1, c2, c3, c4, c5, c6]"
    by (auto simp: length_Suc_conv eval_nat_numeral)
  from assms(2) ds have l: "is_lower_hex c1" "is_lower_hex c2" "is_lower_hex c3"
    "is_lower_hex c4" "is_lower_hex c5" "is_lower_hex c6" by simp_all
  from int16_format [OF l(1) l(2)] obtain r where r: "int16 [c1, c2] = Inr r" "format_02x r = [c1, c2]" by blast
  from int16_format [OF l(3) l(4)] obtain g where g: "int16 [c3, c4] = Inr g" "format_02x g = [c3, c4]" by blast
  from int16_format [OF l(5) l(6)] obtain b where b: "int16 [c5, c6] = Inr b" "format_02x b = [c5, c6]" by blast
  have "lstrip_hash (CHR ''#'' # ds) = ds"
    using lower_hex_not_hash [OF l(1)] by (simp add: lstrip_hash_def ds)
  then have "hex_to_rgba (CHR ''#'' # ds) = Inr (r, g, b, 255)"
    using r g b by (simp add: hex_to_rgba_def ds slice_def)
  then show ?thesis using r g b by (simp add: round_trip_def rgb_to_hex_def rgb_of_def ds)
qed

theorem hex_round_trip_lowercase_witness:
  "length ''1e4a8c'' = 6 \<and> list_all is_lower_hex ''1e4a8c''
     \<and> round_trip ''#1e4a8c'' = Inr ''#1e4a8c''"
  using hex_round_trip_lowercase [of "''1e4a8c''"] by (simp add: is_lower_hex_def)

text \<open>
  C9 as stated fails on uppercase digits: the six-digit colour \<^verbatim>\<open>#FF0000\<close> comes back
  as \<^verbatim>\<open>#ff0000\<close>.
\<close>

theorem hex_round_trip_uppercase_counterexample:
  "round_trip ''#FF0000'' = Inr ''#ff0000'' \<and> round_trip ''#FF0000'' \<noteq> Inr ''#FF0000''"
  by (simp add: round_trip_def hex_to_rgba_def lstrip_hash_def slice_def hex_val_def Let_def
      rgb_to_hex_def rgb_of_def format_02x_def hex_digits.simps hex_digit_def char_of_eq_iff)

section \<open>Properties of \<^verbatim>\<open>next_power_of_2\<close>\<close>

lemma py_int_of_int [simp]: "py_int (real_of_int m) = m"
  by (simp add: py_int_def)

lemma py_int_of_nat [simp]: "py_int (real n) = int n"
  by (simp add: py_int_def)

lemma py_int_floor: "0 \<le> x \<Longrightarrow> py_int x = \<lfloor>x\<rfloor>"
  by (simp add: py_int_def)

lemma py_int_numeral [simp]: "py_int (numeral n) = numeral n" "py_int 0 = 0" "py_int 1 = 1"
  by (simp_all add: py_int_def)

lemma nat_bit_length_0: "nat_bit_length 0 = 0"
  by (simp add: nat_bit_length.simps)

lemma nat_bit_length_1: "nat_bit_length (Suc 0) = Suc 0"
  by (simp add: nat_bit_length.simps [of "Suc 0"] nat_bit_length_0)

lemma nat_bit_length_eq:
  "2 ^ j \<le> n \<Longrightarrow> n < 2 ^ Suc j \<Longrightarrow> nat_bit_length n = Suc j"
proof (induction j arbitrary: n)
  case 0
  then have "n = 1" by simp
  then show ?case by (simp add: nat_bit_length_1)
next
  case (Suc j)
  have "2 ^ j \<le> n div 2" using Suc.prems by simp
  moreover have "n div 2 < 2 ^ Suc j" using Suc.prems by simp
  ultimately have "nat_bit_length (n div 2) = Suc j" by (rule Suc.IH)
  moreover have "n \<noteq> 0" using Suc.prems by auto
  ultimately show ?case by (simp add: nat_bit_length.simps [of n])
qed

lemma nat_bit_length_bounds:
  "0 < n \<Longrightarrow> \<exists>j. nat_bit_length n = Suc j \<and> 2 ^ j \<le> n \<and> n < 2 ^ Suc j"
proof (induction n rule: nat_bit_length.induct)
  case (1 n)
  show ?case
  proof (cases "n div 2 = 0")
    case True
    with 1(2) have "n = 1" by (simp add: div_eq_0_iff)
    then show ?thesis by (simp add: nat_bit_length_1)
  next
    case False
    with 1 obtain j where j: "nat_bit_length (n div 2) = Suc j" "2 ^ j \<le> n div 2" "n div 2 < 2 ^ Suc j"
      by auto
    have "nat_bit_length n = Suc (Suc j)" using 1(2) j(1) by (simp add: nat_bit_length.simps [of n])
    moreover have "2 ^ Suc j \<le> n" using j(2) by simp
    moreover have "n < 2 ^ Suc (Suc j)" using j(3) by simp
    ultimately show ?thesis by blast
  qed
qed

text \<open>next_power_of_2 returns a power of two, for every argument\<close>
lemma next_power_of_2_is_power: "\<exists>k. next_power_of_2 x = 2 ^ k"
  by (simp add: next_power_of_2_def)

lemma next_power_of_2_least:
  assumes "1 \<le> m"
  shows "m \<le> int (next_power_of_2 (real_of_int m)) \<and> int (next_power_of_2 (real_of_int m)) < 2 * m"
proof (cases "m = 1")
  case True
  then show ?thesis by (simp add: next_power_of_2_def bit_length_def nat_bit_length_0)
next
  case False
  with assms have pos: "0 < nat (m - 1)" by simp
  from nat_bit_length_bounds [OF pos] obtain j where
    j: "nat_bit_length (nat (m - 1)) = Suc j" "2 ^ j \<le> nat (m - 1)" "nat (m - 1) < 2 ^ Suc j" by blast
  have bl: "bit_length (m - 1) = Suc j" using assms j(1) by (simp add: bit_length_def)
  have "int (nat (m - 1)) = m - 1" using assms by simp
  have a: "(2::int) ^ j \<le> m - 1" using j(2) assms
    by (metis \<open>int (nat (m - 1)) = m - 1\<close> of_nat_le_iff of_nat_numeral of_nat_power)
  have b: "m - 1 < (2::int) ^ Suc j" using j(3) assms
    by (metis \<open>int (nat (m - 1)) = m - 1\<close> of_nat_less_iff of_nat_numeral of_nat_power)
  show ?thesis using a b by (simp add: next_power_of_2_def bl)
qed

lemma next_power_of_2_zero: "next_power_of_2 0 = 2"
  by (simp add: next_power_of_2_def bit_length_def nat_bit_length_1)

lemma grow_size_double:
  assumes "a = 2 ^ Suc k"
  shows "next_power_of_2 (real a * 1.5) = 2 * a"
proof -
  have "real a * 1.5 = real (3 * 2 ^ k)" using assms by simp
  then have pi: "py_int (real a * 1.5) = int (3 * 2 ^ k)" by (simp only: py_int_of_nat)
  have "int (3 * 2 ^ k) - 1 = int (3 * 2 ^ k - 1)" by (simp add: of_nat_diff)
  then have bl: "bit_length (py_int (real a * 1.5) - 1) = nat_bit_length (3 * 2 ^ k - 1)"
    unfolding pi bit_length_def by (simp only: abs_of_nat nat_int)
  have "nat_bit_length (3 * 2 ^ k - 1) = Suc (Suc k)"
  proof (rule nat_bit_length_eq)
    have "(1::nat) \<le> 2 ^ k" by simp
    then show "(2::nat) ^ Suc k \<le> 3 * 2 ^ k - 1" by simp
    have "(0::nat) < 2 ^ k" by simp
    then have "(3::nat) * 2 ^ k - 1 < 4 * 2 ^ k" by linarith
    then show "(3::nat) * 2 ^ k - 1 < 2 ^ Suc (Suc k)" by simp
  qed
  then show ?thesis using assms bl by (simp add: next_power_of_2_def)
qed


section \<open>The initial atlas side\<close>

lemma py_int_sqrt_scaled:
  assumes "25 * n\<^sup>2 \<le> 36 * A" "36 * A < 25 * (Suc n)\<^sup>2"
  shows "py_int (sqrt (real A) * 1.2) = int n"
proof -
  have s: "sqrt (real A) * 1.2 = sqrt (real A * (6 / 5)\<^sup>2)"
    by (simp add: real_sqrt_mult)
  have "real (25 * n\<^sup>2) \<le> real (36 * A)" using assms(1) by (rule iffD2 [OF of_nat_le_iff])
  then have lo: "(real n)\<^sup>2 \<le> real A * (6 / 5)\<^sup>2" by (simp add: power2_eq_square)
  have "real (36 * A) < real (25 * (Suc n)\<^sup>2)" using assms(2) by (rule iffD2 [OF of_nat_less_iff])
  then have hi: "real A * (6 / 5)\<^sup>2 < (real n + 1)\<^sup>2" by (simp add: power2_eq_square algebra_simps)
  have "real n \<le> sqrt (real A * (6 / 5)\<^sup>2)" using lo by (rule real_le_rsqrt)
  moreover have "sqrt (real A * (6 / 5)\<^sup>2) < real n + 1" using hi by (intro real_less_lsqrt) simp_all
  ultimately have "\<lfloor>sqrt (real A * (6 / 5)\<^sup>2)\<rfloor> = int n" by (intro floor_unique) simp_all
  moreover have "0 \<le> sqrt (real A * (6 / 5)\<^sup>2)" by simp
  ultimately show ?thesis unfolding s by (simp add: py_int_def)
qed

lemma total_area_sum: "total_area xs = (\<Sum>s \<leftarrow> xs. sprite_w s * sprite_h s)"
  by (induction xs) (auto simp: sprite_w_def sprite_h_def)

lemma total_area_sorted: "total_area (sorted_sprites xs) = total_area xs"
proof -
  have "mset (sorted_sprites xs) = mset xs" by (simp add: sorted_sprites_def)
  then have "sum_mset (image_mset (\<lambda>s. sprite_w s * sprite_h s) (mset (sorted_sprites xs)))
      = sum_mset (image_mset (\<lambda>s. sprite_w s * sprite_h s) (mset xs))" by simp
  then show ?thesis unfolding total_area_sum by (simp only: sum_mset_sum_list [symmetric] mset_map)
qed

text \<open>
  C1 (as amended). For every sprite set of positive total area, the initial side is
  \<^verbatim>\<open>next_power_of_2\<close> of the truncated product of 1.2 and the square root of the total
  area: a power of two, at least that integer and less than twice it.
\<close>

theorem initial_atlas_size_formula:
  assumes "0 < (\<Sum>s \<leftarrow> sprites. sprite_w s * sprite_h s)"
  shows "\<exists>k. initial_atlas_size sprites = 2 ^ k
           \<and> \<lfloor>sqrt (real (\<Sum>s \<leftarrow> sprites. sprite_w s * sprite_h s)) * 1.2\<rfloor> \<le> int (initial_atlas_size sprites)
           \<and> int (initial_atlas_size sprites) < 2 * \<lfloor>sqrt (real (\<Sum>s \<leftarrow> sprites. sprite_w s * sprite_h s)) * 1.2\<rfloor>"
proof -
  let ?A = "\<Sum>s \<leftarrow> sprites. sprite_w s * sprite_h s"
  let ?m = "\<lfloor>sqrt (real ?A) * 1.2\<rfloor>"
  have ta: "total_area (sorted_sprites sprites) = ?A"
    using total_area_sorted [of sprites] by (simp only: total_area_sum)
  have nn: "0 \<le> sqrt (real ?A) * 1.2" by simp
  have size: "initial_atlas_size sprites = next_power_of_2 (real_of_int ?m)"
    unfolding initial_atlas_size_def Let_def ta py_int_floor [OF nn] ..
  have "1 \<le> real ?A" using assms by simp
  then have "1 \<le> sqrt (real ?A)" by simp
  then have "1 \<le> sqrt (real ?A) * 1.2" by linarith
  then have m: "1 \<le> ?m" by linarith
  from next_power_of_2_least [OF m] next_power_of_2_is_power [of "real_of_int ?m"]
  show ?thesis unfolding size by blast
qed

theorem initial_atlas_size_formula_witness:
  "0 < (\<Sum>s \<leftarrow> [(''bench'', 16, 32)]. sprite_w s * sprite_h s)
   \<and> (\<exists>k. initial_atlas_size [(''bench'', 16, 32)] = 2 ^ k
      \<and> \<lfloor>sqrt (real (\<Sum>s \<leftarrow> [(''bench'', 16, 32)]. sprite_w s * sprite_h s)) * 1.2\<rfloor>
          \<le> int (initial_atlas_size [(''bench'', 16, 32)])
      \<and> int (initial_atlas_size [(''bench'', 16, 32)])
          < 2 * \<lfloor>sqrt (real (\<Sum>s \<leftarrow> [(''bench'', 16, 32)]. sprite_w s * sprite_h s)) * 1.2\<rfloor>)"
proof -
  have pos: "0 < (\<Sum>s \<leftarrow> [(''bench'', 16, 32)]. sprite_w s * sprite_h s)"
    by (simp add: sprite_w_def sprite_h_def)
  show ?thesis using pos initial_atlas_size_formula [OF pos] by blast
qed

lemma nat_bit_length_65: "nat_bit_length 65 = 7"
  using nat_bit_length_eq [of 6 65] by simp

lemma initial_atlas_size_64x48: "initial_atlas_size [(''tile'', 48, 64)] = 128"
proof -
  have "py_int (sqrt (real (3072::nat)) * 1.2) = int 66"
    by (rule py_int_sqrt_scaled) simp_all
  then show ?thesis
    by (simp add: initial_atlas_size_def sorted_sprites_def next_power_of_2_def bit_length_def nat_bit_length_65)
qed

lemma claimed_initial_side_64x48: "claimed_initial_side [(''tile'', 48, 64)] = 64"
proof -
  let ?x = "sqrt (1.2 * real (3072::nat))"
  have up: "?x \<le> 64" by (intro real_le_lsqrt) simp_all
  have lo: "32 < ?x" by (intro real_less_rsqrt) simp
  have "(LEAST p::nat. (\<exists>k. p = 2 ^ k) \<and> ?x \<le> real p) = 64"
  proof (rule Least_equality)
    have "(64::nat) = 2 ^ 6" by simp
    then show "(\<exists>k. (64::nat) = 2 ^ k) \<and> ?x \<le> real (64::nat)" using up by (metis of_nat_numeral)
  next
    fix p :: nat
    assume "(\<exists>k. p = 2 ^ k) \<and> ?x \<le> real p"
    then obtain k where k: "p = 2 ^ k" and px: "?x \<le> real p" by blast
    have "32 < real p" using lo px by linarith
    then have "32 < p" by simp
    then have "(2::nat) ^ 5 < 2 ^ k" unfolding k by simp
    then have "5 < k" by (simp only: power_strict_increasing_iff [of "2::nat"]) 
    then have "6 \<le> k" by simp
    then have "(2::nat) ^ 6 \<le> 2 ^ k" by (rule power_increasing) simp
    then show "64 \<le> p" using k by simp
  qed
  then show ?thesis by (simp add: claimed_initial_side_def sprite_w_def sprite_h_def)
qed

text \<open>
  C1 as stated fails for a single sprite of 64 by 48 pixels: the code multiplies the
  square root by 1.2 and truncates, which gives 66 and the side 128, while the square
  root of 1.2 times the area is below 64.
\<close>

theorem initial_atlas_size_counterexample:
  "initial_atlas_size [(''tile'', 48, 64)] = 128 \<and> claimed_initial_side [(''tile'', 48, 64)] = 64"
  using initial_atlas_size_64x48 claimed_initial_side_64x48 by simp

section \<open>Properties of the packer\<close>

lemma next_power_of_2_eval:
  assumes "2 ^ j < n" "n \<le> 2 ^ Suc j"
  shows "next_power_of_2 (real n) = 2 ^ Suc j"
proof -
  have "0 < n" using assms(1) by (cases n) auto
  then have "bit_length (int n - 1) = nat_bit_length (n - 1)"
    unfolding bit_length_def by (intro arg_cong [where f = nat_bit_length]) linarith
  moreover have "nat_bit_length (n - 1) = Suc j"
    using assms by (intro nat_bit_length_eq) auto
  ultimately show ?thesis by (simp add: next_power_of_2_def)
qed

lemma initial_atlas_size_eval:
  assumes "total_area sprites = A" "25 * n\<^sup>2 \<le> 36 * A" "36 * A < 25 * (Suc n)\<^sup>2"
  shows "initial_atlas_size sprites = next_power_of_2 (real n)"
proof -
  have "py_int (sqrt (real A) * 1.2) = int n" using assms(2,3) by (rule py_int_sqrt_scaled)
  then show ?thesis
    by (simp add: initial_atlas_size_def total_area_sorted assms(1))
qed

lemma pack_loop_names:
  "pack_loop configs xs st = Inr st' \<Longrightarrow> map fst (frames st') = map fst (frames st) @ map fst xs"
proof (induction xs arbitrary: st)
  case Nil
  then show ?case by simp
next
  case (Cons s xs)
  obtain name h w where s: "s = (name, h, w)" by (cases s) auto
  from Cons.prems obtain config where
    c: "configs (base_name name) = Some config"
    and r: "pack_loop configs xs (place name h w (cfg_anchor config) (grow h (start_row w st))) = Inr st'"
    by (auto simp: s Let_def split: option.splits)
  have "map fst (frames (place name h w (cfg_anchor config) (grow h (start_row w st)))) = map fst (frames st) @ [name]"
    by (simp add: place_def grow_def start_row_def)
  with Cons.IH [OF r] show ?case by (simp add: s)
qed

lemma sorted_sprites_descending:
  "sorted_wrt (\<lambda>a b. sprite_h a \<ge> sprite_h b) (sorted_sprites sprites)"
proof -
  have "sorted (map (\<lambda>s. - int (sprite_h s)) (sorted_sprites sprites))"
    unfolding sorted_sprites_def by (rule sorted_sort_key)
  then show ?thesis by (simp add: sorted_map sorted_wrt_map)
qed

lemma sorted_sprites_stable:
  "filter (\<lambda>s. sprite_h s = k) (sorted_sprites sprites) = filter (\<lambda>s. sprite_h s = k) sprites"
proof -
  have "filter (\<lambda>s. - int (sprite_h s) = - int k) (sort_key (\<lambda>s. - int (sprite_h s)) sprites)
      = filter (\<lambda>s. - int (sprite_h s) = - int k) sprites"
    by (rule sort_key_stable)
  then show ?thesis by (simp add: sorted_sprites_def)
qed

lemma grow_power_of_two:
  "\<exists>k. atlas_size st = 2 ^ k \<Longrightarrow> \<exists>k. atlas_size (grow h st) = 2 ^ k"
  by (auto simp: grow_def next_power_of_2_def)

lemma pack_loop_power_of_two:
  "pack_loop configs xs st = Inr st' \<Longrightarrow> \<exists>k. atlas_size st = 2 ^ k \<Longrightarrow> \<exists>k. atlas_size st' = 2 ^ k"
proof (induction xs arbitrary: st)
  case Nil
  then show ?case by simp
next
  case (Cons s xs)
  obtain name h w where s: "s = (name, h, w)" by (cases s) auto
  from Cons.prems(1) obtain config where
    c: "configs (base_name name) = Some config"
    and r: "pack_loop configs xs (place name h w (cfg_anchor config) (grow h (start_row w st))) = Inr st'"
    by (auto simp: s Let_def split: option.splits)
  have "\<exists>k. atlas_size (start_row w st) = 2 ^ k" using Cons.prems(2) by (simp add: start_row_def)
  then have "\<exists>k. atlas_size (grow h (start_row w st)) = 2 ^ k" by (rule grow_power_of_two)
  then have "\<exists>k. atlas_size (place name h w (cfg_anchor config) (grow h (start_row w st))) = 2 ^ k"
    by (simp add: place_def)
  with Cons.IH [OF r] show ?case .
qed

lemma initial_atlas_size_power_of_two: "\<exists>k. initial_atlas_size sprites = 2 ^ k"
  by (simp add: initial_atlas_size_def next_power_of_2_def)

lemma pack_sprites_power_of_two:
  assumes "pack_sprites sprites configs = Inr (side, frs)"
  shows "\<exists>k. side = 2 ^ k"
proof -
  let ?st0 = "\<lparr>atlas_size = initial_atlas_size sprites, current_x = 0, current_y = 0,
           row_height = 0, frames = []\<rparr>"
  from assms obtain st where st: "pack_loop configs (sorted_sprites sprites) ?st0 = Inr st"
    and side: "side = atlas_size st"
    by (cases "pack_loop configs (sorted_sprites sprites) ?st0") (auto simp: pack_sprites_def)
  have "\<exists>k. atlas_size ?st0 = 2 ^ k" using initial_atlas_size_power_of_two by simp
  with pack_loop_power_of_two [OF st] side show ?thesis by simp
qed

lemma grow_doubles:
  assumes "atlas_size st = 2 ^ Suc k" "current_y st + h > atlas_size st"
  shows "atlas_size (grow h st) = 2 * atlas_size st"
  using assms grow_size_double [of "atlas_size st" k] by (simp add: grow_def)

lemma base_name_a: "base_name ''a'' = ''a''"
  by (simp add: base_name_def)

lemma base_name_b: "base_name ''b'' = ''b''"
  by (simp add: base_name_def)

lemma base_name_c: "base_name ''c'' = ''c''"
  by (simp add: base_name_def)

lemma pack_three:
  "pack_sprites [(''a'', 32, 16), (''b'', 16, 16), (''c'', 16, 16)]
     [''a'' \<mapsto> bench_config, ''b'' \<mapsto> bench_config, ''c'' \<mapsto> bench_config]
   = Inr (64, [(''a'', \<lparr>frame_x = 0, frame_y = 0, frame_w = 16, frame_h = 32, rotated = False, trimmed = False,
      source_w = 16, source_h = 32, anchor_x = 0.5, anchor_y = 0.8\<rparr>),
               (''b'', \<lparr>frame_x = 16, frame_y = 0, frame_w = 16, frame_h = 16, rotated = False, trimmed = False,
      source_w = 16, source_h = 16, anchor_x = 0.5, anchor_y = 0.8\<rparr>),
               (''c'', \<lparr>frame_x = 32, frame_y = 0, frame_w = 16, frame_h = 16, rotated = False, trimmed = False,
      source_w = 16, source_h = 16, anchor_x = 0.5, anchor_y = 0.8\<rparr>)])"
proof -
  let ?cfgs = "[''a'' \<mapsto> bench_config, ''b'' \<mapsto> bench_config, ''c'' \<mapsto> bench_config]"
  let ?s0 = "\<lparr>atlas_size = 64, current_x = 0, current_y = 0, row_height = 0, frames = []\<rparr>"
  let ?s1 = "\<lparr>atlas_size = 64, current_x = 16, current_y = 0, row_height = 32, frames = [(''a'', \<lparr>frame_x = 0, frame_y = 0, frame_w = 16, frame_h = 32, rotated = False, trimmed = False,
      source_w = 16, source_h = 32, anchor_x = 0.5, anchor_y = 0.8\<rparr>)]\<rparr>"
  let ?s2 = "\<lparr>atlas_size = 64, current_x = 32, current_y = 0, row_height = 32, frames = [(''a'', \<lparr>frame_x = 0, frame_y = 0, frame_w = 16, frame_h = 32, rotated = False, trimmed = False,
      source_w = 16, source_h = 32, anchor_x = 0.5, anchor_y = 0.8\<rparr>), (''b'', \<lparr>frame_x = 16, frame_y = 0, frame_w = 16, frame_h = 16, rotated = False, trimmed = False,
      source_w = 16, source_h = 16, anchor_x = 0.5, anchor_y = 0.8\<rparr>)]\<rparr>"
  let ?s3 = "\<lparr>atlas_size = 64, current_x = 48, current_y = 0, row_height = 32, frames = [(''a'', \<lparr>frame_x = 0, frame_y = 0, frame_w = 16, frame_h = 32, rotated = False, trimmed = False,
      source_w = 16, source_h = 32, anchor_x = 0.5, anchor_y = 0.8\<rparr>), (''b'', \<lparr>frame_x = 16, frame_y = 0, frame_w = 16, frame_h = 16, rotated = False, trimmed = False,
      source_w = 16, source_h = 16, anchor_x = 0.5, anchor_y = 0.8\<rparr>), (''c'', \<lparr>frame_x = 32, frame_y = 0, frame_w = 16, frame_h = 16, rotated = False, trimmed = False,
      source_w = 16, source_h = 16, anchor_x = 0.5, anchor_y = 0.8\<rparr>)]\<rparr>"
  have sorted: "sorted_sprites [(''a'', 32, 16), (''b'', 16, 16), (''c'', 16, 16)]
      = [(''a'', 32, 16), (''b'', 16, 16), (''c'', 16, 16)]"
    by (simp add: sorted_sprites_def sprite_h_def)
  have "initial_atlas_size [(''a'', 32, 16), (''b'', 16, 16), (''c'', 16, 16)]
      = next_power_of_2 (real (38::nat))"
    by (rule initial_atlas_size_eval [where A = 1024]) simp_all
  also have "\<dots> = 2 ^ Suc 5" by (rule next_power_of_2_eval) simp_all
  finally have size: "initial_atlas_size [(''a'', 32, 16), (''b'', 16, 16), (''c'', 16, 16)] = 64"
    by simp
  have c: "?cfgs ''a'' = Some bench_config" "?cfgs ''b'' = Some bench_config"
    "?cfgs ''c'' = Some bench_config" by simp_all
  have 1: "place ''a'' 32 16 (cfg_anchor bench_config) (grow 32 (start_row 16 ?s0)) = ?s1"
    by (simp add: start_row_def grow_def place_def bench_config_def)
  have 2: "place ''b'' 16 16 (cfg_anchor bench_config) (grow 16 (start_row 16 ?s1)) = ?s2"
    by (simp add: start_row_def grow_def place_def bench_config_def)
  have 3: "place ''c'' 16 16 (cfg_anchor bench_config) (grow 16 (start_row 16 ?s2)) = ?s3"
    by (simp add: start_row_def grow_def place_def bench_config_def)
  have "pack_loop ?cfgs [(''a'', 32, 16), (''b'', 16, 16), (''c'', 16, 16)] ?s0 = Inr ?s3"
    by (simp only: pack_loop.simps Let_def base_name_a base_name_b base_name_c c option.case 1 2 3)
  then show ?thesis
    unfolding pack_sprites_def sorted size by simp
qed

lemma shelved_start_row: "shelved st f \<Longrightarrow> shelved (start_row w st) f"
  by (auto simp: shelved_def start_row_def)

lemma shelved_grow: "shelved (grow h st) = shelved st"
  by (rule ext) (simp add: shelved_def grow_def)

lemma packed_start_row: "packed st \<Longrightarrow> packed (start_row w st)"
proof -
  assume p: "packed st"
  have fr: "frames (start_row w st) = frames st" by (simp add: start_row_def)
  from p have "list_all (shelved (start_row w st)) (map snd (frames st))"
    by (auto simp: packed_def list_all_iff intro: shelved_start_row)
  with p show ?thesis by (simp add: packed_def fr)
qed

lemma packed_grow: "packed st \<Longrightarrow> packed (grow h st)"
proof -
  assume p: "packed st"
  have fr: "frames (grow h st) = frames st" by (simp add: grow_def)
  show ?thesis using p by (simp add: packed_def fr shelved_grow)
qed

lemma packed_place:
  assumes "packed st"
  shows "packed (place name h w anchor st)"
proof -
  let ?n = "\<lparr>frame_x = current_x st, frame_y = current_y st, frame_w = w, frame_h = h,
             rotated = False, trimmed = False, source_w = w, source_h = h,
             anchor_x = fst anchor, anchor_y = snd anchor\<rparr>"
  let ?st' = "place name h w anchor st"
  have fr: "map snd (frames ?st') = map snd (frames st) @ [?n]" by (simp add: place_def)
  have cur: "current_x ?st' = current_x st + w" "current_y ?st' = current_y st"
    "row_height ?st' = max (row_height st) h" by (simp_all add: place_def)
  from assms have old: "\<And>f. f \<in> set (map snd (frames st)) \<Longrightarrow> shelved st f"
    and dis: "sorted_wrt (\<lambda>f g. \<not> overlap f g) (map snd (frames st))"
    by (auto simp: packed_def list_all_iff)
  have no: "\<not> overlap f ?n" if "f \<in> set (map snd (frames st))" for f
    using old [OF that] by (auto simp: shelved_def overlap_def)
  have keep: "shelved ?st' f" if "f \<in> set (map snd (frames st))" for f
    using old [OF that] by (auto simp: shelved_def cur)
  have new: "shelved ?st' ?n" by (simp add: shelved_def cur)
  have "sorted_wrt (\<lambda>f g. \<not> overlap f g) (map snd (frames ?st'))"
    unfolding fr using dis no by (simp add: sorted_wrt_append)
  moreover have "list_all (shelved ?st') (map snd (frames ?st'))"
    unfolding fr using keep new by (simp add: list_all_iff)
  ultimately show ?thesis by (simp add: packed_def)
qed

lemma pack_loop_packed:
  "pack_loop configs xs st = Inr st' \<Longrightarrow> packed st \<Longrightarrow> packed st'"
proof (induction xs arbitrary: st)
  case Nil
  then show ?case by simp
next
  case (Cons s xs)
  obtain name h w where s: "s = (name, h, w)" by (cases s) auto
  from Cons.prems(1) obtain config where
    c: "configs (base_name name) = Some config"
    and r: "pack_loop configs xs (place name h w (cfg_anchor config) (grow h (start_row w st))) = Inr st'"
    by (auto simp: s Let_def split: option.splits)
  have "packed (place name h w (cfg_anchor config) (grow h (start_row w st)))"
    using Cons.prems(2) by (intro packed_place packed_grow packed_start_row)
  with Cons.IH [OF r] show ?case .
qed

lemma pack_sprites_disjoint:
  assumes "pack_sprites sprites configs = Inr (side, frs)"
  shows "sorted_wrt (\<lambda>f g. \<not> overlap f g) (map snd frs)"
proof -
  let ?st0 = "\<lparr>atlas_size = initial_atlas_size sprites, current_x = 0, current_y = 0,
           row_height = 0, frames = []\<rparr>"
  from assms obtain st where st: "pack_loop configs (sorted_sprites sprites) ?st0 = Inr st"
    and frs: "frs = frames st"
    by (cases "pack_loop configs (sorted_sprites sprites) ?st0") (auto simp: pack_sprites_def)
  have "packed ?st0" by (simp add: packed_def)
  from pack_loop_packed [OF st this] frs show ?thesis by (simp add: packed_def)
qed

lemma pack_loop_total:
  assumes "\<And>s. s \<in> set xs \<Longrightarrow> configs (base_name (fst s)) \<noteq> None"
  shows "\<exists>st'. pack_loop configs xs st = Inr st'"
  using assms
proof (induction xs arbitrary: st)
  case Nil
  then show ?case by simp
next
  case (Cons s xs)
  obtain name h w where s: "s = (name, h, w)" by (cases s) auto
  from Cons.prems [of s] obtain config where c: "configs (base_name name) = Some config"
    by (auto simp: s)
  from Cons.IH [of "place name h w (cfg_anchor config) (grow h (start_row w st))"] Cons.prems
  show ?case by (simp add: s c Let_def)
qed

text \<open>
  C8. The packer visits the sprites in the order of a stable sort on the height,
  descending: the frames are recorded in the order of \<open>sorted_sprites\<close>, which is
  ordered by height from the tallest and keeps sprites of equal height in their order
  of insertion.
\<close>

theorem pack_order:
  assumes "\<forall>s \<in> set sprites. configs (base_name (fst s)) \<noteq> None"
  shows "\<exists>side frs. pack_sprites sprites configs = Inr (side, frs)
       \<and> map fst frs = map fst (sorted_sprites sprites)
       \<and> sorted_wrt (\<lambda>a b. sprite_h a \<ge> sprite_h b) (sorted_sprites sprites)
       \<and> (\<forall>k. filter (\<lambda>s. sprite_h s = k) (sorted_sprites sprites)
              = filter (\<lambda>s. sprite_h s = k) sprites)"
proof -
  let ?st0 = "\<lparr>atlas_size = initial_atlas_size sprites, current_x = 0, current_y = 0,
           row_height = 0, frames = []\<rparr>"
  have "set (sorted_sprites sprites) = set sprites" by (simp add: sorted_sprites_def)
  with assms have "\<And>s. s \<in> set (sorted_sprites sprites) \<Longrightarrow> configs (base_name (fst s)) \<noteq> None"
    by simp
  from pack_loop_total [of "sorted_sprites sprites" configs ?st0, OF this] obtain st where
    st: "pack_loop configs (sorted_sprites sprites) ?st0 = Inr st" by blast
  then have r: "pack_sprites sprites configs = Inr (atlas_size st, frames st)"
    by (simp add: pack_sprites_def)
  from pack_loop_names [OF st] have "map fst (frames st) = map fst (sorted_sprites sprites)" by simp
  with r show ?thesis using sorted_sprites_descending sorted_sprites_stable by blast
qed

theorem pack_order_witness:
  "list_all (\<lambda>s. [''a'' \<mapsto> bench_config, ''b'' \<mapsto> bench_config, ''c'' \<mapsto> bench_config]
                 (base_name (fst s)) \<noteq> None)
      ([(''a'', 32, 16), (''b'', 16, 16), (''c'', 16, 16)] :: sprite list)
   \<and> pack_sprites [(''a'', 32, 16), (''b'', 16, 16), (''c'', 16, 16)]
         [''a'' \<mapsto> bench_config, ''b'' \<mapsto> bench_config, ''c'' \<mapsto> bench_config]
       = Inr (64, [(''a'', \<lparr>frame_x = 0, frame_y = 0, frame_w = 16, frame_h = 32, rotated = False, trimmed = False,
      source_w = 16, source_h = 32, anchor_x = 0.5, anchor_y = 0.8\<rparr>),
     (''b'', \<lparr>frame_x = 16, frame_y = 0, frame_w = 16, frame_h = 16, rotated = False, trimmed = False,
      source_w = 16, source_h = 16, anchor_x = 0.5, anchor_y = 0.8\<rparr>),
     (''c'', \<lparr>frame_x = 32, frame_y = 0, frame_w = 16, frame_h = 16, rotated = False, trimmed = False,
      source_w = 16, source_h = 16, anchor_x = 0.5, anchor_y = 0.8\<rparr>)])
   \<and> map fst [(''a'', \<lparr>frame_x = 0, frame_y = 0, frame_w = 16, frame_h = 32, rotated = False, trimmed = False,
      source_w = 16, source_h = 32, anchor_x = 0.5, anchor_y = 0.8\<rparr>),
     (''b'', \<lparr>frame_x = 16, frame_y = 0, frame_w = 16, frame_h = 16, rotated = False, trimmed = False,
      source_w = 16, source_h = 16, anchor_x = 0.5, anchor_y = 0.8\<rparr>),
     (''c'', \<lparr>frame_x = 32, frame_y = 0, frame_w = 16, frame_h = 16, rotated = False, trimmed = False,
      source_w = 16, source_h = 16, anchor_x = 0.5, anchor_y = 0.8\<rparr>)]
       = map fst (sorted_sprites [(''a'', 32, 16), (''b'', 16, 16), (''c'', 16, 16)])
   \<and> map fst (sorted_sprites [(''a'', 32, 16), (''b'', 16, 16), (''c'', 16, 16)])
       = [''a'', ''b'', ''c'']"
proof -
  let ?sprites = "[(''a'', 32, 16), (''b'', 16, 16), (''c'', 16, 16)] :: sprite list"
  let ?configs = "[''a'' \<mapsto> bench_config, ''b'' \<mapsto> bench_config, ''c'' \<mapsto> bench_config]"
  let ?frs = "[(''a'', \<lparr>frame_x = 0, frame_y = 0, frame_w = 16, frame_h = 32, rotated = False, trimmed = False,
      source_w = 16, source_h = 32, anchor_x = 0.5, anchor_y = 0.8\<rparr>),
     (''b'', \<lparr>frame_x = 16, frame_y = 0, frame_w = 16, frame_h = 16, rotated = False, trimmed = False,
      source_w = 16, source_h = 16, anchor_x = 0.5, anchor_y = 0.8\<rparr>),
     (''c'', \<lparr>frame_x = 32, frame_y = 0, frame_w = 16, frame_h = 16, rotated = False, trimmed = False,
      source_w = 16, source_h = 16, anchor_x = 0.5, anchor_y = 0.8\<rparr>)]"
  have h: "\<forall>s \<in> set ?sprites. ?configs (base_name (fst s)) \<noteq> None"
    by (simp add: base_name_a base_name_b base_name_c)
  have s: "map fst (sorted_sprites ?sprites) = [''a'', ''b'', ''c'']"
    by (simp add: sorted_sprites_def sprite_h_def)
  from pack_order [OF h] obtain side frs where
    r: "pack_sprites ?sprites ?configs = Inr (side, frs)"
    and o: "map fst frs = map fst (sorted_sprites ?sprites)" by blast
  from r pack_three have "frs = ?frs" by simp
  with o have "map fst ?frs = map fst (sorted_sprites ?sprites)" by (simp only:)
  moreover have "list_all (\<lambda>s. ?configs (base_name (fst s)) \<noteq> None) ?sprites"
    using h by (simp only: list_all_iff)
  ultimately show ?thesis using s pack_three by blast
qed

lemma base_name_beam: "base_name ''beam'' = ''beam''"
  by (simp add: base_name_def)

lemma pack_beam:
  "pack_sprites [(''beam'', 4, 128)] [''beam'' \<mapsto> bench_config]
   = Inr (32, [(''beam'', \<lparr>frame_x = 0, frame_y = 0, frame_w = 128, frame_h = 4, rotated = False, trimmed = False,
      source_w = 128, source_h = 4, anchor_x = 0.5, anchor_y = 0.8\<rparr>)])"
proof -
  have s: "sorted_sprites [(''beam'', 4, 128)] = [(''beam'', 4, 128)]"
    by (simp add: sorted_sprites_def)
  have "initial_atlas_size [(''beam'', 4, 128)] = next_power_of_2 (real (27::nat))"
    by (rule initial_atlas_size_eval [where A = 512]) simp_all
  also have "\<dots> = 2 ^ Suc 4" by (rule next_power_of_2_eval) simp_all
  finally have size: "initial_atlas_size [(''beam'', 4, 128)] = 32" by simp
  have 1: "place ''beam'' 4 128 (cfg_anchor bench_config) (grow 4 (start_row 128
       \<lparr>atlas_size = 32, current_x = 0, current_y = 0, row_height = 0, frames = []\<rparr>))
     = \<lparr>atlas_size = 32, current_x = 128, current_y = 0, row_height = 4, frames = [(''beam'', \<lparr>frame_x = 0, frame_y = 0, frame_w = 128, frame_h = 4, rotated = False, trimmed = False,
      source_w = 128, source_h = 4, anchor_x = 0.5, anchor_y = 0.8\<rparr>)]\<rparr>"
    by (simp add: start_row_def grow_def place_def bench_config_def)
  show ?thesis unfolding pack_sprites_def s size
    by (simp only: pack_loop.simps Let_def base_name_beam fun_upd_same option.case 1
        bind_err.simps pack_state.simps)
qed

text \<open>
  C4, at the failing input: a single sprite 128 wide and 4 high, sizes that pass the
  validation. The initial side is 32; the width check only starts a new row, so the
  frame is recorded at the origin with width 128 in an atlas of side 32.
\<close>

theorem pack_sprites_frame_outside_atlas:
  "pack_sprites [(''beam'', 4, 128)] [''beam'' \<mapsto> bench_config]
   = Inr (32, [(''beam'', \<lparr>frame_x = 0, frame_y = 0, frame_w = 128, frame_h = 4, rotated = False, trimmed = False,
      source_w = 128, source_h = 4, anchor_x = 0.5, anchor_y = 0.8\<rparr>)])
   \<and> \<not> list_all (\<lambda>nf. within_atlas 32 (snd nf))
        [(''beam'', \<lparr>frame_x = 0, frame_y = 0, frame_w = 128, frame_h = 4, rotated = False, trimmed = False,
      source_w = 128, source_h = 4, anchor_x = 0.5, anchor_y = 0.8\<rparr>)]"
  using pack_beam by (simp add: within_atlas_def)

lemma base_name_dot: "base_name ''dot'' = ''dot''"
  by (simp add: base_name_def)



section \<open>Properties of valid colours\<close>

lemma hex_val_range:
  assumes "is_hex c"
  shows "\<exists>x. hex_val c = Some x \<and> 0 \<le> x \<and> x < 16"
  using assms by (auto simp: is_hex_def hex_val_def Let_def split: if_splits)

lemma is_hex_not_hash: "is_hex c \<Longrightarrow> c \<noteq> CHR ''#''"
  by (auto simp: is_hex_def hex_val_def)

lemma int16_range:
  assumes "is_hex c" "is_hex d"
  shows "\<exists>v. int16 [c, d] = Inr v \<and> 0 \<le> v \<and> v \<le> 255"
proof -
  from hex_val_range [OF assms(1)] obtain x where x: "hex_val c = Some x" "0 \<le> x" "x < 16" by blast
  from hex_val_range [OF assms(2)] obtain y where y: "hex_val d = Some y" "0 \<le> y" "y < 16" by blast
  show ?thesis using x y by simp
qed

lemma hex_to_rgba_valid:
  assumes "valid_color c"
  shows "\<exists>r g b a. hex_to_rgba c = Inr (r, g, b, a) \<and> channel r \<and> channel g \<and> channel b \<and> channel a
      \<and> (length c = 7 \<longrightarrow> a = 255)"
proof -
  from assms obtain ds where c: "c = CHR ''#'' # ds" and len: "length ds = 6 \<or> length ds = 8"
    and hex: "list_all is_hex ds"
    by (cases c) (auto simp: valid_color_def)
  from len show ?thesis
  proof
    assume l: "length ds = 6"
    then obtain c1 c2 c3 c4 c5 c6 where ds: "ds = [c1, c2, c3, c4, c5, c6]"
      by (auto simp: length_Suc_conv eval_nat_numeral)
    from hex ds have h: "is_hex c1" "is_hex c2" "is_hex c3" "is_hex c4" "is_hex c5" "is_hex c6" by simp_all
    from int16_range [OF h(1) h(2)] obtain r where r: "int16 [c1, c2] = Inr r" "0 \<le> r" "r \<le> 255" by blast
    from int16_range [OF h(3) h(4)] obtain g where g: "int16 [c3, c4] = Inr g" "0 \<le> g" "g \<le> 255" by blast
    from int16_range [OF h(5) h(6)] obtain b where b: "int16 [c5, c6] = Inr b" "0 \<le> b" "b \<le> 255" by blast
    have "lstrip_hash c = ds" using is_hex_not_hash [OF h(1)] by (simp add: lstrip_hash_def c ds)
    then have "hex_to_rgba c = Inr (r, g, b, 255)"
      using r g b by (simp add: hex_to_rgba_def ds slice_def)
    then show ?thesis using r g b by (simp add: channel_def)
  next
    assume l: "length ds = 8"
    then obtain c1 c2 c3 c4 c5 c6 c7 c8 where ds: "ds = [c1, c2, c3, c4, c5, c6, c7, c8]"
      by (auto simp: length_Suc_conv eval_nat_numeral)
    from hex ds have h: "is_hex c1" "is_hex c2" "is_hex c3" "is_hex c4" "is_hex c5" "is_hex c6"
      "is_hex c7" "is_hex c8" by simp_all
    from int16_range [OF h(1) h(2)] obtain r where r: "int16 [c1, c2] = Inr r" "0 \<le> r" "r \<le> 255" by blast
    from int16_range [OF h(3) h(4)] obtain g where g: "int16 [c3, c4] = Inr g" "0 \<le> g" "g \<le> 255" by blast
    from int16_range [OF h(5) h(6)] obtain b where b: "int16 [c5, c6] = Inr b" "0 \<le> b" "b \<le> 255" by blast
    from int16_range [OF h(7) h(8)] obtain a where a: "int16 [c7, c8] = Inr a" "0 \<le> a" "a \<le> 255" by blast
    have "lstrip_hash c = ds" using is_hex_not_hash [OF h(1)] by (simp add: lstrip_hash_def c ds)
    then have "hex_to_rgba c = Inr (r, g, b, a)"
      using r g b a by (simp add: hex_to_rgba_def ds slice_def)
    then show ?thesis using r g b a by (simp add: channel_def c ds)
  qed
qed


section \<open>Properties of the validation\<close>





lemma hex_black: "hex_to_rgba ''#000000'' = Inr (0, 0, 0, 255)"
  by (simp add: hex_to_rgba_def lstrip_hash_def slice_def hex_val_def Let_def)

lemma hex_white: "hex_to_rgba ''#ffffff'' = Inr (255, 255, 255, 255)"
  by (simp add: hex_to_rgba_def lstrip_hash_def slice_def hex_val_def Let_def)







section \<open>Properties of the hue rotation\<close>

lemma scaled_between:
  fixes d k :: real
  assumes "0 \<le> d" "0 \<le> k" "k \<le> 1"
  shows "0 \<le> d * k \<and> d * k \<le> d"
proof -
  have "d * k \<le> d * 1" using assms by (intro mult_left_mono) simp_all
  then show ?thesis using assms by simp
qed

lemma hue_to_rgb_range:
  assumes "p \<le> q" "- 1 \<le> t" "t \<le> 2"
  shows "p \<le> hue_to_rgb p q t \<and> hue_to_rgb p q t \<le> q"
proof -
  define u where "u = (if (if t < 0 then t + 1 else t) > 1 then (if t < 0 then t + 1 else t) - 1
                       else (if t < 0 then t + 1 else t))"
  define w1 where "w1 = (q - p) * 6 * u"
  define w3 where "w3 = (q - p) * (2 / 3 - u) * 6"
  have u: "0 \<le> u" "u \<le> 1" using assms(2,3) by (auto simp: u_def)
  have d: "0 \<le> q - p" using assms(1) by simp
  have h: "hue_to_rgb p q t = (if u < 1 / 6 then p + w1
         else if u < 1 / 2 then q
         else if u < 2 / 3 then p + w3
         else p)"
    by (simp add: hue_to_rgb_def u_def w1_def w3_def Let_def)
  have w1: "u < 1 / 6 \<Longrightarrow> 0 \<le> w1 \<and> w1 \<le> q - p"
  proof -
    assume "u < 1 / 6"
    then have "0 \<le> 6 * u" "6 * u \<le> 1" using u by simp_all
    from scaled_between [OF d this] have "0 \<le> (q - p) * (6 * u) \<and> (q - p) * (6 * u) \<le> q - p" .
    moreover have "w1 = (q - p) * (6 * u)" by (simp add: w1_def)
    ultimately show ?thesis by simp
  qed
  have w3: "\<not> u < 1 / 2 \<Longrightarrow> u < 2 / 3 \<Longrightarrow> 0 \<le> w3 \<and> w3 \<le> q - p"
  proof -
    assume "\<not> u < 1 / 2" "u < 2 / 3"
    then have "0 \<le> (2 / 3 - u) * 6" "(2 / 3 - u) * 6 \<le> 1" by simp_all
    from scaled_between [OF d this] have "0 \<le> (q - p) * ((2 / 3 - u) * 6) \<and> (q - p) * ((2 / 3 - u) * 6) \<le> q - p" .
    moreover have "w3 = (q - p) * ((2 / 3 - u) * 6)" by (simp add: w3_def)
    ultimately show ?thesis by simp
  qed
  show ?thesis unfolding h using w1 w3 assms(1) by (auto split: if_splits)
qed

lemma hsl_pq_range:
  assumes "0 \<le> s" "s \<le> 1" "0 \<le> l" "l \<le> 1"
  shows "0 \<le> hsl_p s l \<and> hsl_p s l \<le> hsl_q s l \<and> hsl_q s l \<le> 1"
proof (cases "l < 0.5")
  case True
  have a: "0 \<le> l * s" using assms by simp
  have b: "l * s \<le> l * 1" using assms by (intro mult_left_mono) simp_all
  show ?thesis using True a b assms by (simp add: hsl_p_def hsl_q_def algebra_simps)
next
  case False
  have a: "0 \<le> s * (1 - l)" using assms by simp
  have b: "s * (1 - l) \<le> 1 * (1 - l)" using assms by (intro mult_right_mono) simp_all
  show ?thesis using False a b assms by (simp add: hsl_p_def hsl_q_def algebra_simps)
qed

lemma hsl_channels_eq:
  "s \<noteq> 0 \<Longrightarrow> hsl_channels h s l =
     (hue_to_rgb (hsl_p s l) (hsl_q s l) (h + 1 / 3), hue_to_rgb (hsl_p s l) (hsl_q s l) h,
      hue_to_rgb (hsl_p s l) (hsl_q s l) (h - 1 / 3))"
  by (simp add: hsl_channels_def hsl_p_def hsl_q_def Let_def)

lemma hue_to_rgb_hits_q:
  assumes "0 \<le> h" "h < 1"
  shows "hue_to_rgb p q (h + 1 / 3) = q \<or> hue_to_rgb p q h = q \<or> hue_to_rgb p q (h - 1 / 3) = q"
proof -
  consider "h < 1 / 6" | "1 / 6 \<le> h" "h < 1 / 2" | "1 / 2 \<le> h" "h < 5 / 6" | "5 / 6 \<le> h"
    by linarith
  then show ?thesis
  proof cases
    case 1
    then have "hue_to_rgb p q (h + 1 / 3) = q" using assms by (simp add: hue_to_rgb_def)
    then show ?thesis by simp
  next
    case 2
    then have "hue_to_rgb p q h = q" using assms by (simp add: hue_to_rgb_def)
    then show ?thesis by simp
  next
    case 3
    then have "hue_to_rgb p q (h - 1 / 3) = q" using assms by (simp add: hue_to_rgb_def)
    then show ?thesis by simp
  next
    case 4
    then have "hue_to_rgb p q (h + 1 / 3) = q" using assms by (simp add: hue_to_rgb_def)
    then show ?thesis by simp
  qed
qed

lemma hue_to_rgb_hits_p:
  assumes "0 \<le> h" "h < 1"
  shows "hue_to_rgb p q (h + 1 / 3) = p \<or> hue_to_rgb p q h = p \<or> hue_to_rgb p q (h - 1 / 3) = p"
proof -
  consider "h < 1 / 3" | "1 / 3 \<le> h" "h < 2 / 3" | "2 / 3 \<le> h"
    by linarith
  then show ?thesis
  proof cases
    case 1
    then have "hue_to_rgb p q (h - 1 / 3) = p" using assms by (simp add: hue_to_rgb_def)
    then show ?thesis by simp
  next
    case 2
    then have "hue_to_rgb p q (h + 1 / 3) = p" using assms by (simp add: hue_to_rgb_def)
    then show ?thesis by simp
  next
    case 3
    then have "hue_to_rgb p q h = p" using assms by (simp add: hue_to_rgb_def)
    then show ?thesis by simp
  qed
qed

lemma py_fmod_range:
  assumes "0 < y"
  shows "0 \<le> py_fmod x y \<and> py_fmod x y < y"
proof -
  have "of_int \<lfloor>x / y\<rfloor> * y \<le> x" using assms by (rule floor_divide_lower)
  moreover have "x < (of_int \<lfloor>x / y\<rfloor> + 1) * y" using assms by (rule floor_divide_upper)
  ultimately show ?thesis by (simp add: py_fmod_def algebra_simps)
qed


lemma norm_range:
  assumes "channel r" "channel g" "channel b"
  shows "0 \<le> norm_min (r, g, b, a)" "norm_min (r, g, b, a) \<le> norm_max (r, g, b, a)"
    "norm_max (r, g, b, a) \<le> 1"
  using assms by (auto simp: norm_min_def norm_max_def channel_def)

lemma saturation_range:
  assumes "channel r" "channel g" "channel b"
  shows "0 \<le> saturation (r, g, b, a) \<and> saturation (r, g, b, a) \<le> 1"
proof -
  note n = norm_range [OF assms, of a]
  show ?thesis
  proof (cases "norm_max (r, g, b, a) = 0")
    case True
    then show ?thesis by (simp add: saturation_def)
  next
    case False
    then have pos: "0 < norm_max (r, g, b, a)" using n by linarith
    have "saturation (r, g, b, a) = (norm_max (r, g, b, a) - norm_min (r, g, b, a)) / norm_max (r, g, b, a)"
      using False by (simp add: saturation_def Let_def)
    then show ?thesis using n pos by (simp add: pos_divide_le_eq)
  qed
qed

lemma lightness_range:
  assumes "channel r" "channel g" "channel b"
  shows "0 \<le> lightness (r, g, b, a) \<and> lightness (r, g, b, a) \<le> 1"
  using norm_range [OF assms, of a] by (simp add: lightness_def)

lemma py_int_channel:
  assumes "0 \<le> v" "v \<le> 1"
  shows "channel (py_int (v * 255))"
proof -
  have "0 \<le> v * 255" "v * 255 \<le> 255" using assms by simp_all
  then have "0 \<le> \<lfloor>v * 255\<rfloor>" "\<lfloor>v * 255\<rfloor> \<le> 255" by (simp_all add: floor_le_iff)
  then show ?thesis using assms by (simp add: py_int_def channel_def)
qed

lemma py_int_mono: "0 \<le> x \<Longrightarrow> x \<le> y \<Longrightarrow> py_int (x * 255) \<le> py_int (y * 255)"
  by (simp add: py_int_def floor_mono)

lemma levels_range:
  assumes "0 \<le> s" "s \<le> 1" "0 \<le> l" "l \<le> 1"
  shows "0 \<le> bottom_level s l" "bottom_level s l \<le> top_level s l" "top_level s l \<le> 1"
    "top_level s l + bottom_level s l = 2 * l"
  using hsl_pq_range [OF assms] assms by (auto simp: top_level_def bottom_level_def hsl_p_def)

lemma hsl_channels_levels:
  assumes "0 \<le> h" "h < 1" "0 \<le> s" "s \<le> 1" "0 \<le> l" "l \<le> 1"
  shows "\<exists>x y z. hsl_channels h s l = (x, y, z)
     \<and> bottom_level s l \<le> x \<and> x \<le> top_level s l
     \<and> bottom_level s l \<le> y \<and> y \<le> top_level s l
     \<and> bottom_level s l \<le> z \<and> z \<le> top_level s l
     \<and> (x = top_level s l \<or> y = top_level s l \<or> z = top_level s l)
     \<and> (x = bottom_level s l \<or> y = bottom_level s l \<or> z = bottom_level s l)"
proof (cases "s = 0")
  case True
  then show ?thesis by (simp add: hsl_channels_def top_level_def bottom_level_def)
next
  case False
  let ?p = "hsl_p s l" and ?q = "hsl_q s l"
  have pq: "?p \<le> ?q" using hsl_pq_range [OF assms(3-6)] by simp
  have r1: "?p \<le> hue_to_rgb ?p ?q (h + 1 / 3) \<and> hue_to_rgb ?p ?q (h + 1 / 3) \<le> ?q"
    using assms(1,2) by (intro hue_to_rgb_range [OF pq]) simp_all
  have r2: "?p \<le> hue_to_rgb ?p ?q h \<and> hue_to_rgb ?p ?q h \<le> ?q"
    using assms(1,2) by (intro hue_to_rgb_range [OF pq]) simp_all
  have r3: "?p \<le> hue_to_rgb ?p ?q (h - 1 / 3) \<and> hue_to_rgb ?p ?q (h - 1 / 3) \<le> ?q"
    using assms(1,2) by (intro hue_to_rgb_range [OF pq]) simp_all
  show ?thesis
    using False r1 r2 r3 hue_to_rgb_hits_q [OF assms(1,2), of ?p ?q]
      hue_to_rgb_hits_p [OF assms(1,2), of ?p ?q]
    by (simp add: hsl_channels_eq top_level_def bottom_level_def)
qed

lemma hsl_to_rgb_levels:
  assumes "0 \<le> h" "h < 1" "0 \<le> s" "s \<le> 1" "0 \<le> l" "l \<le> 1"
  shows "\<exists>r g b. hsl_to_rgb h s l = (r, g, b) \<and> channel r \<and> channel g \<and> channel b
     \<and> max r (max g b) = py_int (top_level s l * 255)
     \<and> min r (min g b) = py_int (bottom_level s l * 255)"
proof -
  note lv = levels_range [OF assms(3-6)]
  from hsl_channels_levels [OF assms] obtain x y z where
    c: "hsl_channels h s l = (x, y, z)"
    and x: "bottom_level s l \<le> x" "x \<le> top_level s l"
    and y: "bottom_level s l \<le> y" "y \<le> top_level s l"
    and z: "bottom_level s l \<le> z" "z \<le> top_level s l"
    and top: "x = top_level s l \<or> y = top_level s l \<or> z = top_level s l"
    and bot: "x = bottom_level s l \<or> y = bottom_level s l \<or> z = bottom_level s l"
    by blast
  let ?T = "py_int (top_level s l * 255)" and ?B = "py_int (bottom_level s l * 255)"
  have x0: "0 \<le> x" "x \<le> 1" and y0: "0 \<le> y" "y \<le> 1" and z0: "0 \<le> z" "z \<le> 1"
    using lv x y z by linarith+
  have xb: "?B \<le> py_int (x * 255)" "py_int (x * 255) \<le> ?T"
    using x x0 lv by (auto intro: py_int_mono)
  have yb: "?B \<le> py_int (y * 255)" "py_int (y * 255) \<le> ?T"
    using y y0 lv by (auto intro: py_int_mono)
  have zb: "?B \<le> py_int (z * 255)" "py_int (z * 255) \<le> ?T"
    using z z0 lv by (auto intro: py_int_mono)
  have t: "py_int (x * 255) = ?T \<or> py_int (y * 255) = ?T \<or> py_int (z * 255) = ?T"
    using top by auto
  have b: "py_int (x * 255) = ?B \<or> py_int (y * 255) = ?B \<or> py_int (z * 255) = ?B"
    using bot by auto
  have "hsl_to_rgb h s l = (py_int (x * 255), py_int (y * 255), py_int (z * 255))"
    by (simp add: hsl_to_rgb_def c)
  moreover have "max (py_int (x * 255)) (max (py_int (y * 255)) (py_int (z * 255))) = ?T"
    using xb yb zb t by linarith
  moreover have "min (py_int (x * 255)) (min (py_int (y * 255)) (py_int (z * 255))) = ?B"
    using xb yb zb b by linarith
  ultimately show ?thesis
    using py_int_channel [OF x0] py_int_channel [OF y0] py_int_channel [OF z0] by simp
qed

lemma hex_digit_props:
  assumes "k < 16"
  shows "is_lower_hex (hex_digit k) \<and> hex_val (hex_digit k) = Some (int k)"
proof (cases "k < 10")
  case True
  then have "of_char (hex_digit k) = 48 + k" by (simp add: hex_digit_def)
  then show ?thesis using True by (simp add: is_lower_hex_def hex_val_def Let_def)
next
  case False
  then have "of_char (hex_digit k) = 87 + k" using assms by (simp add: hex_digit_def)
  then show ?thesis using False assms by (simp add: is_lower_hex_def hex_val_def Let_def)
qed

lemma is_lower_hex_is_hex: "is_lower_hex c \<Longrightarrow> is_hex c"
  by (auto simp: is_lower_hex_def is_hex_def hex_val_def Let_def)

lemma format_02x_channel:
  assumes "channel n"
  shows "format_02x n = [hex_digit (nat (n div 16)), hex_digit (nat (n mod 16))]"
proof -
  have "0 \<le> n div 16" "n div 16 < 16" "0 \<le> n mod 16" "n mod 16 < 16"
    using assms by (auto simp: channel_def)
  from format_02x_two_digits [OF this] show ?thesis by simp
qed

lemma int16_format_channel:
  assumes "channel n"
  shows "int16 (format_02x n) = Inr n \<and> list_all is_lower_hex (format_02x n)"
proof -
  have a: "nat (n div 16) < 16" "nat (n mod 16) < 16" using assms by (auto simp: channel_def)
  have b: "0 \<le> n div 16" "0 \<le> n mod 16" using assms by (auto simp: channel_def)
  show ?thesis
    using hex_digit_props [OF a(1)] hex_digit_props [OF a(2)] b
    by (simp add: format_02x_channel [OF assms])
qed

lemma rgb_to_hex_valid:
  assumes "channel r" "channel g" "channel b"
  shows "valid_color (rgb_to_hex (r, g, b)) \<and> length (rgb_to_hex (r, g, b)) = 7
       \<and> hex_to_rgba (rgb_to_hex (r, g, b)) = Inr (r, g, b, 255)"
proof -
  let ?R = "hex_digit (nat (r div 16))" and ?r = "hex_digit (nat (r mod 16))"
  let ?G = "hex_digit (nat (g div 16))" and ?g = "hex_digit (nat (g mod 16))"
  let ?B = "hex_digit (nat (b div 16))" and ?b = "hex_digit (nat (b mod 16))"
  have s: "rgb_to_hex (r, g, b) = [CHR ''#'', ?R, ?r, ?G, ?g, ?B, ?b]"
    by (simp add: rgb_to_hex_def format_02x_channel assms)
  have ir: "int16 [?R, ?r] = Inr r" "is_lower_hex ?R" "is_lower_hex ?r"
    using int16_format_channel [OF assms(1)] by (simp_all add: format_02x_channel [OF assms(1)])
  have ig: "int16 [?G, ?g] = Inr g" "is_lower_hex ?G" "is_lower_hex ?g"
    using int16_format_channel [OF assms(2)] by (simp_all add: format_02x_channel [OF assms(2)])
  have ib: "int16 [?B, ?b] = Inr b" "is_lower_hex ?B" "is_lower_hex ?b"
    using int16_format_channel [OF assms(3)] by (simp_all add: format_02x_channel [OF assms(3)])
  have v: "valid_color (rgb_to_hex (r, g, b))"
    using ir ig ib by (simp add: s valid_color_def is_lower_hex_is_hex)
  have "lstrip_hash (rgb_to_hex (r, g, b)) = [?R, ?r, ?G, ?g, ?B, ?b]"
    using lower_hex_not_hash [OF ir(2)] by (simp add: s lstrip_hash_def)
  then have "hex_to_rgba (rgb_to_hex (r, g, b)) = Inr (r, g, b, 255)"
    using ir ig ib by (simp add: hex_to_rgba_def slice_def)
  then show ?thesis using v by (simp add: s)
qed

lemma rotate_hue_valid:
  assumes "valid_color c"
  shows "\<exists>v r g b. hex_to_rgba c = Inr v \<and> rotate_hue c d = Inr (rgb_to_hex (r, g, b))
     \<and> channel r \<and> channel g \<and> channel b
     \<and> max r (max g b) = py_int (top_level (saturation v) (lightness v) * 255)
     \<and> min r (min g b) = py_int (bottom_level (saturation v) (lightness v) * 255)"
proof -
  from hex_to_rgba_valid [OF assms] obtain r0 g0 b0 a0 where
    v: "hex_to_rgba c = Inr (r0, g0, b0, a0)" and ch: "channel r0" "channel g0" "channel b0"
    by blast
  let ?v = "(r0, g0, b0, a0)"
  let ?h = "py_fmod (hue_degrees ?v + d) 360 / 360"
  have h: "0 \<le> ?h" "?h < 1" using py_fmod_range [of 360 "hue_degrees ?v + d"] by simp_all
  note s = saturation_range [OF ch, of a0]
  note l = lightness_range [OF ch, of a0]
  from hsl_to_rgb_levels [OF h, of "saturation ?v" "lightness ?v"] s l
  obtain r g b where o: "hsl_to_rgb ?h (saturation ?v) (lightness ?v) = (r, g, b)"
    "channel r" "channel g" "channel b"
    "max r (max g b) = py_int (top_level (saturation ?v) (lightness ?v) * 255)"
    "min r (min g b) = py_int (bottom_level (saturation ?v) (lightness ?v) * 255)"
    by blast
  have "rotate_hue c d = Inr (rgb_to_hex (r, g, b))"
    by (simp add: rotate_hue_def v Let_def o(1))
  then show ?thesis using v o by blast
qed

lemma rotate_hue_opaque:
  assumes "valid_color c"
  shows "\<exists>s r g b. rotate_hue c d = Inr s \<and> valid_color s \<and> length s = 7
     \<and> hex_to_rgba s = Inr (r, g, b, 255)"
proof -
  from rotate_hue_valid [OF assms, of d] obtain r g b where
    "rotate_hue c d = Inr (rgb_to_hex (r, g, b))" "channel r" "channel g" "channel b" by blast
  then show ?thesis using rgb_to_hex_valid [of r g b] by blast
qed















section \<open>Properties of the grid generator\<close>

lemma map_err_Inr_iff:
  "map_err f xs = Inr ys \<longleftrightarrow> list_all2 (\<lambda>x y. f x = Inr y) xs ys"
proof (induction xs arbitrary: ys)
  case Nil
  then show ?case by auto
next
  case (Cons x xs)
  show ?case
  proof (cases "f x")
    case (Inl e)
    then show ?thesis by (auto simp: list_all2_Cons1)
  next
    case (Inr y)
    note fx = this
    show ?thesis
    proof (cases "map_err f xs")
      case (Inl e)
      then have "\<not> list_all2 (\<lambda>x y. f x = Inr y) xs zs" for zs
        using Cons.IH [of zs] by simp
      then show ?thesis using fx Inl by (auto simp: list_all2_Cons1)
    next
      case (Inr zs)
      then show ?thesis using fx by (auto simp: list_all2_Cons1 Cons.IH [symmetric])
    qed
  qed
qed

lemma map_err_total:
  assumes "\<And>x. x \<in> set xs \<Longrightarrow> \<exists>y. f x = Inr y"
  shows "\<exists>ys. map_err f xs = Inr ys"
  using assms
proof (induction xs)
  case Nil
  then show ?case by simp
next
  case (Cons x xs)
  from Cons.prems [of x] obtain y where y: "f x = Inr y" by auto
  from Cons.IH Cons.prems obtain ys where ys: "map_err f xs = Inr ys" by auto
  show ?case by (simp add: y ys)
qed

lemma build_grid_Inr:
  assumes "build_grid w h f = Inr g"
  shows "length g = h" "y < h \<Longrightarrow> length (g ! y) = w"
    "y < h \<Longrightarrow> x < w \<Longrightarrow> f y x = Inr (g ! y ! x)"
proof -
  from assms have a: "list_all2 (\<lambda>y row. map_err (\<lambda>x. f y x) [0..<w] = Inr row) [0..<h] g"
    by (simp add: build_grid_def map_err_Inr_iff)
  then show len: "length g = h" by (auto dest: list_all2_lengthD)
  {
    assume y: "y < h"
    with a len have "map_err (\<lambda>x. f y x) [0..<w] = Inr (g ! y)"
      by (auto simp: list_all2_conv_all_nth)
    then have b: "list_all2 (\<lambda>x px. f y x = Inr px) [0..<w] (g ! y)" by (simp add: map_err_Inr_iff)
    then show lr: "length (g ! y) = w" by (auto dest: list_all2_lengthD)
    assume "x < w"
    with b lr show "f y x = Inr (g ! y ! x)" by (auto simp: list_all2_conv_all_nth)
  }
qed

lemma build_grid_total:
  assumes "\<And>y x. y < h \<Longrightarrow> x < w \<Longrightarrow> \<exists>px. f y x = Inr px"
  shows "\<exists>g. build_grid w h f = Inr g"
  unfolding build_grid_def
  by (rule map_err_total, rule map_err_total) (use assms in auto)

lemma to_pixel_alpha: "alpha (to_pixel (r, g, b, 255)) = 255"
  by (simp add: alpha_def to_pixel_def)

lemma shape_pixel_result:
  assumes "palette \<noteq> []" "list_all valid_color palette" "hex_to_rgba (palette ! 0) = Inr base"
  shows "\<exists>px. shape_pixel t palette (palette ! 0) base w h y x = Inr px
     \<and> (\<not> in_inset w h y x \<longrightarrow> px = to_pixel base)
     \<and> ((\<forall>c \<in> set palette. length c = 7) \<longrightarrow> alpha px = 255)
     \<and> (t = ''npc'' \<and> length palette = 1 \<and> in_inset w h y x \<and> real y < real h * 0.7
          \<longrightarrow> alpha px = 255)"
proof -
  define A where "A = (\<forall>c \<in> set palette. length c = 7)"
  define body where "body = (real y < real h * 0.7)"
  have v0: "valid_color (palette ! 0)" using assms(1,2) by (simp add: list_all_length)
  obtain r g b a where base: "base = (r, g, b, a)" by (cases base) auto
  from hex_to_rgba_valid [OF v0] assms(3) base have ch: "channel a" "length (palette ! 0) = 7 \<longrightarrow> a = 255"
    by auto
  then have fill: "(case base of (r, g, b, a) \<Rightarrow> to_pixel (r, g, b, if a < 255 then a else 255)) = to_pixel base"
    by (auto simp: base channel_def)
  have fa: "A \<longrightarrow> alpha (to_pixel base) = 255"
    using ch(2) assms(1) by (auto simp: base to_pixel_alpha A_def)
  have p1: "length palette > 1 \<Longrightarrow> \<exists>v. hex_to_rgba (palette ! 1) = Inr v
      \<and> (A \<longrightarrow> alpha (to_pixel v) = 255)"
  proof -
    assume l: "length palette > 1"
    then have v1: "valid_color (palette ! 1)" using assms(2) by (simp add: list_all_length)
    from hex_to_rgba_valid [OF v1] obtain r g b a where
      "hex_to_rgba (palette ! 1) = Inr (r, g, b, a)" "length (palette ! 1) = 7 \<longrightarrow> a = 255" by blast
    moreover have "palette ! 1 \<in> set palette" using l by simp
    ultimately show ?thesis by (auto simp: to_pixel_alpha A_def)
  qed
  from rotate_hue_opaque [OF v0, of 30] obtain s r' g' b' where
    rot: "rotate_hue (palette ! 0) 30 = Inr s" "hex_to_rgba s = Inr (r', g', b', 255)" by blast
  have sp: "shape_pixel t palette (palette ! 0) base w h y x =
      (if in_inset w h y x
       then if t = ''npc''
            then if body
                 then bind_err (if length palette > 1 then Inr (palette ! 1) else rotate_hue (palette ! 0) 30)
                        (\<lambda>color_hex. bind_err (hex_to_rgba color_hex) (\<lambda>c. Inr (to_pixel c)))
                 else Inr (to_pixel base)
            else if length palette > 1 then bind_err (hex_to_rgba (palette ! 1)) (\<lambda>c. Inr (to_pixel c))
                 else Inr (to_pixel base)
       else Inr (to_pixel base))"
    unfolding shape_pixel_def fill Let_def body_def ..
  have len1: "length palette = 1 \<longleftrightarrow> \<not> length palette > 1" using assms(1) by (cases palette) auto
  have goal: "\<exists>px. shape_pixel t palette (palette ! 0) base w h y x = Inr px
     \<and> (\<not> in_inset w h y x \<longrightarrow> px = to_pixel base)
     \<and> (A \<longrightarrow> alpha px = 255)
     \<and> (t = ''npc'' \<and> length palette = 1 \<and> in_inset w h y x \<and> body \<longrightarrow> alpha px = 255)"
  proof (cases "length palette > 1")
    case True
    from p1 [OF True] obtain v where v: "hex_to_rgba (palette ! 1) = Inr v"
      "A \<longrightarrow> alpha (to_pixel v) = 255" by blast
    have "shape_pixel t palette (palette ! 0) base w h y x =
       Inr (if in_inset w h y x \<and> (t = ''npc'' \<longrightarrow> body) then to_pixel v else to_pixel base)"
      unfolding sp using True v(1) by simp
    then show ?thesis using v(2) fa True len1 by simp
  next
    case False
    have "shape_pixel t palette (palette ! 0) base w h y x =
       Inr (if in_inset w h y x \<and> t = ''npc'' \<and> body then to_pixel (r', g', b', 255) else to_pixel base)"
      unfolding sp using False rot by simp
    then show ?thesis using fa False by (simp add: to_pixel_alpha)
  qed
  then show ?thesis unfolding A_def body_def .
qed

lemma rotate_palette_valid:
  assumes "list_all valid_color xs"
  shows "\<exists>ys. map_err (\<lambda>c. rotate_hue c d) xs = Inr ys \<and> length ys = length xs
     \<and> list_all valid_color ys \<and> (\<forall>c \<in> set ys. length c = 7)"
  using assms
proof (induction xs)
  case Nil
  then show ?case by simp
next
  case (Cons x xs)
  then obtain ys where ys: "map_err (\<lambda>c. rotate_hue c d) xs = Inr ys" "length ys = length xs"
    "list_all valid_color ys" "\<forall>c \<in> set ys. length c = 7" by auto
  from Cons.prems have "valid_color x" by simp
  from rotate_hue_opaque [OF this, of d] obtain s where
    s: "rotate_hue x d = Inr s" "valid_color s" "length s = 7" by blast
  show ?case using ys s by simp
qed

lemma variant_palette_valid:
  assumes "list_all valid_color (cfg_palette config)"
  shows "\<exists>p. variant_palette config v = Inr p \<and> length p = length (cfg_palette config)
     \<and> list_all valid_color p
     \<and> (v > 0 \<and> cfg_type config = ''npc'' \<longrightarrow> (\<forall>c \<in> set p. length c = 7))
     \<and> (\<not> (v > 0 \<and> cfg_type config = ''npc'') \<longrightarrow> p = cfg_palette config)"
proof (cases "v > 0 \<and> cfg_type config = ''npc''")
  case True
  from rotate_palette_valid [OF assms, of "30 * real_of_int v"] True
  show ?thesis by (auto simp: variant_palette_def)
next
  case False
  then show ?thesis using assms by (auto simp: variant_palette_def)
qed

lemma outline_pixel:
  assumes "0 < w" "0 < h" "length g = h" "\<And>y. y < h \<Longrightarrow> length (g ! y) = w"
  shows "\<exists>g'. outline w h g = Inr g' \<and> length g' = h
     \<and> (\<forall>y < h. length (g' ! y) = w
          \<and> (\<forall>x < w. g' ! y ! x = g ! y ! x \<or> g' ! y ! x = (0, 0, 0, 255)))"
  using assms by (auto simp: outline_def)

lemma generate_shape_grid:
  assumes "cfg_type config \<noteq> ''tile''" "cfg_size config = (w, h)" "0 \<le> w" "0 \<le> h"
    "cfg_palette config \<noteq> []" "list_all valid_color (cfg_palette config)"
    "outlined_type (cfg_type config) \<longrightarrow> 0 < w \<and> 0 < h"
  shows "\<exists>p base g. variant_palette config v = Inr p \<and> p \<noteq> [] \<and> list_all valid_color p
     \<and> (v > 0 \<and> cfg_type config = ''npc'' \<longrightarrow> (\<forall>c \<in> set p. length c = 7))
     \<and> (\<not> (v > 0 \<and> cfg_type config = ''npc'') \<longrightarrow> p = cfg_palette config)
     \<and> hex_to_rgba (p ! 0) = Inr base
     \<and> generate_pixel_grid rt config v = Inr g \<and> length g = nat h
     \<and> (\<forall>y < nat h. length (g ! y) = nat w
          \<and> (\<forall>x < nat w. \<exists>px.
                shape_pixel (cfg_type config) p (p ! 0) base (nat w) (nat h) y x = Inr px
                \<and> (g ! y ! x = px \<or> (outlined_type (cfg_type config) \<and> g ! y ! x = (0, 0, 0, 255)))))"
proof -
  let ?t = "cfg_type config"
  from variant_palette_valid [OF assms(6), of v] obtain p where
    p: "variant_palette config v = Inr p" "length p = length (cfg_palette config)"
    "list_all valid_color p"
    "v > 0 \<and> ?t = ''npc'' \<longrightarrow> (\<forall>c \<in> set p. length c = 7)"
    "\<not> (v > 0 \<and> ?t = ''npc'') \<longrightarrow> p = cfg_palette config" by blast
  from p(2) assms(5) have ne: "p \<noteq> []" by auto
  then have "valid_color (p ! 0)" using p(3) by (simp add: list_all_length)
  from hex_to_rgba_valid [OF this] obtain r g b a where base: "hex_to_rgba (p ! 0) = Inr (r, g, b, a)"
    by blast
  let ?base = "(r, g, b, a)"
  let ?f = "shape_pixel ?t p (p ! 0) ?base (nat w) (nat h)"
  have tot: "\<exists>px. ?f y x = Inr px" for y x
    using shape_pixel_result [OF ne p(3) base, of ?t "nat w" "nat h" y x] by blast
  then obtain g0 where g0: "build_grid (nat w) (nat h) ?f = Inr g0"
    using build_grid_total [of "nat h" "nat w" ?f] by blast
  note bg = build_grid_Inr [OF g0]
  have gen: "generate_pixel_grid rt config v =
      (if outlined_type ?t then outline (nat w) (nat h) g0 else Inr g0)"
    using assms(1-4) ne by (simp add: generate_pixel_grid_def p(1) base g0 Let_def outlined_type_def)
  show ?thesis
  proof (cases "outlined_type ?t")
    case False
    then have "generate_pixel_grid rt config v = Inr g0" using gen by simp
    moreover have "\<forall>y < nat h. length (g0 ! y) = nat w
          \<and> (\<forall>x < nat w. \<exists>px. ?f y x = Inr px
                \<and> (g0 ! y ! x = px \<or> (outlined_type ?t \<and> g0 ! y ! x = (0, 0, 0, 255))))"
      using bg(2,3) by simp
    ultimately show ?thesis using p ne base bg(1) by blast
  next
    case True
    with assms(7) have pos: "0 < nat w" "0 < nat h" by simp_all
    from outline_pixel [OF pos bg(1) bg(2)] obtain g' where
      g': "outline (nat w) (nat h) g0 = Inr g'" "length g' = nat h"
      "\<forall>y < nat h. length (g' ! y) = nat w
          \<and> (\<forall>x < nat w. g' ! y ! x = g0 ! y ! x \<or> g' ! y ! x = (0, 0, 0, 255))" by auto
    have "generate_pixel_grid rt config v = Inr g'" using gen True g'(1) by simp
    moreover have "\<forall>y < nat h. length (g' ! y) = nat w
          \<and> (\<forall>x < nat w. \<exists>px. ?f y x = Inr px
                \<and> (g' ! y ! x = px \<or> (outlined_type ?t \<and> g' ! y ! x = (0, 0, 0, 255))))"
      using g'(3) bg(3) True by metis
    ultimately show ?thesis using p ne base g'(2) by blast
  qed
qed

lemma pixel_at_Inr:
  "y < length g \<Longrightarrow> x < length (g ! y) \<Longrightarrow> pixel_at (Inr g) y x = Some (g ! y ! x)"
  by (simp add: pixel_at_def)








text \<open>
  C10. \<^verbatim>\<open>rotate_hue\<close> returns a six-digit colour for every valid colour, so that it
  parses with alpha 255; every pixel of a character's variant grid (variant index at
  least 1) is fully opaque; and so is the body of a character with a single-colour
  palette, whatever the alpha of the configured colour.
\<close>

theorem rotate_hue_discards_alpha:
  "(valid_color c \<longrightarrow>
      (\<exists>s r g b. rotate_hue c d = Inr s \<and> length s = 7 \<and> valid_color s
         \<and> hex_to_rgba s = Inr (r, g, b, 255)))
   \<and> (cfg_type config = ''npc'' \<and> 1 \<le> variant_idx \<and> cfg_size config = (w, h) \<and> 0 \<le> w \<and> 0 \<le> h
        \<and> cfg_palette config \<noteq> [] \<and> list_all valid_color (cfg_palette config) \<longrightarrow>
      (\<exists>g. generate_pixel_grid rt config variant_idx = Inr g \<and> length g = nat h
         \<and> list_all (\<lambda>row. length row = nat w \<and> list_all (\<lambda>px. alpha px = 255) row) g))
   \<and> (cfg_type config = ''npc'' \<and> cfg_size config = (w, h) \<and> 8 \<le> w \<and> 8 \<le> h
        \<and> cfg_palette config = [c] \<and> valid_color c
        \<and> in_inset (nat w) (nat h) y x \<and> real y < real (nat h) * 0.7 \<longrightarrow>
      (\<exists>px. pixel_at (generate_pixel_grid rt config 0) y x = Some px \<and> alpha px = 255))"
proof (intro conjI impI)
  assume "valid_color c"
  from rotate_hue_opaque [OF this, of d]
  show "\<exists>s r g b. rotate_hue c d = Inr s \<and> length s = 7 \<and> valid_color s
         \<and> hex_to_rgba s = Inr (r, g, b, 255)" by blast
next
  assume a: "cfg_type config = ''npc'' \<and> 1 \<le> variant_idx \<and> cfg_size config = (w, h) \<and> 0 \<le> w \<and> 0 \<le> h
        \<and> cfg_palette config \<noteq> [] \<and> list_all valid_color (cfg_palette config)"
  then have t: "cfg_type config \<noteq> ''tile''" "\<not> outlined_type (cfg_type config)"
    "variant_idx > 0 \<and> cfg_type config = ''npc''"
    by (simp_all add: outlined_type_def)
  from a t(2) have h: "cfg_size config = (w, h)" "0 \<le> w" "0 \<le> h" "cfg_palette config \<noteq> []"
    "list_all valid_color (cfg_palette config)" "outlined_type (cfg_type config) \<longrightarrow> 0 < w \<and> 0 < h"
    by simp_all
  from generate_shape_grid [OF t(1) h, of variant_idx rt] t(2,3)
  obtain p base gr where
    p: "p \<noteq> []" "list_all valid_color p" "\<forall>c \<in> set p. length c = 7"
    and base: "hex_to_rgba (p ! 0) = Inr base"
    and g: "generate_pixel_grid rt config variant_idx = Inr gr" "length gr = nat h"
    and px: "\<forall>y < nat h. length (gr ! y) = nat w
          \<and> (\<forall>x < nat w. \<exists>px.
                shape_pixel (cfg_type config) p (p ! 0) base (nat w) (nat h) y x = Inr px
                \<and> gr ! y ! x = px)"
    by auto
  have "length (gr ! y) = nat w \<and> list_all (\<lambda>px. alpha px = 255) (gr ! y)" if y: "y < nat h" for y
  proof -
    from px y have len: "length (gr ! y) = nat w" by blast
    have "alpha (gr ! y ! x) = 255" if x: "x < nat w" for x
    proof -
      from px y x obtain q where
        q: "shape_pixel (cfg_type config) p (p ! 0) base (nat w) (nat h) y x = Inr q" "gr ! y ! x = q"
        by blast
      from shape_pixel_result [OF p(1,2) base, of "cfg_type config" "nat w" "nat h" y x] q(1) p(3)
      have "alpha q = 255" by auto
      then show ?thesis using q(2) by simp
    qed
    then show ?thesis using len by (simp add: list_all_length)
  qed
  then have "list_all (\<lambda>row. length row = nat w \<and> list_all (\<lambda>px. alpha px = 255) row) gr"
    using g(2) by (simp add: list_all_length)
  then show "\<exists>g. generate_pixel_grid rt config variant_idx = Inr g \<and> length g = nat h
         \<and> list_all (\<lambda>row. length row = nat w \<and> list_all (\<lambda>px. alpha px = 255) row) g"
    using g by blast
next
  assume a: "cfg_type config = ''npc'' \<and> cfg_size config = (w, h) \<and> 8 \<le> w \<and> 8 \<le> h
        \<and> cfg_palette config = [c] \<and> valid_color c
        \<and> in_inset (nat w) (nat h) y x \<and> real y < real (nat h) * 0.7"
  then have t: "cfg_type config \<noteq> ''tile''" "\<not> outlined_type (cfg_type config)"
    "\<not> ((0::int) > 0 \<and> cfg_type config = ''npc'')"
    by (simp_all add: outlined_type_def)
  from a t(2) have h: "cfg_size config = (w, h)" "0 \<le> w" "0 \<le> h" "cfg_palette config \<noteq> []"
    "list_all valid_color (cfg_palette config)" "outlined_type (cfg_type config) \<longrightarrow> 0 < w \<and> 0 < h"
    by simp_all
  from a have yx: "y < nat h" "x < nat w" by (auto simp: in_inset_def)
  from generate_shape_grid [OF t(1) h, of 0 rt] t(2,3) a
  obtain base gr where
    base: "hex_to_rgba ([c] ! 0) = Inr base"
    and g: "generate_pixel_grid rt config 0 = Inr gr" "length gr = nat h"
    and px: "\<forall>y < nat h. length (gr ! y) = nat w
          \<and> (\<forall>x < nat w. \<exists>px.
                shape_pixel (cfg_type config) [c] ([c] ! 0) base (nat w) (nat h) y x = Inr px
                \<and> gr ! y ! x = px)"
    by auto
  from px yx obtain q where
    q: "shape_pixel (cfg_type config) [c] ([c] ! 0) base (nat w) (nat h) y x = Inr q" "gr ! y ! x = q"
    and len: "length (gr ! y) = nat w"
    by blast
  have "alpha q = 255"
    using shape_pixel_result [of "[c]" base "cfg_type config" "nat w" "nat h" y x] base q(1) a
    by auto
  moreover have "pixel_at (generate_pixel_grid rt config 0) y x = Some (gr ! y ! x)"
    unfolding g(1) using yx g(2) len by (intro pixel_at_Inr) simp_all
  ultimately show "\<exists>px. pixel_at (generate_pixel_grid rt config 0) y x = Some px \<and> alpha px = 255"
    using q(2) by simp
qed

lemma valid_ghost: "valid_color ''#1e4a8c80''"
  by (simp add: valid_color_def is_hex_def hex_val_def Let_def)

lemma hex_ghost: "hex_to_rgba ''#1e4a8c80'' = Inr (30, 74, 140, 128)"
  by (simp add: hex_to_rgba_def lstrip_hash_def slice_def hex_val_def Let_def)

theorem rotate_hue_discards_alpha_witness:
  "valid_color ''#1e4a8c80'' \<and> hex_to_rgba ''#1e4a8c80'' = Inr (30, 74, 140, 128)
   \<and> (\<exists>s r g b. rotate_hue ''#1e4a8c80'' 30 = Inr s \<and> length s = 7 \<and> valid_color s
         \<and> hex_to_rgba s = Inr (r, g, b, 255))
   \<and> cfg_type ghost_config = ''npc'' \<and> cfg_size ghost_config = (16, 32)
   \<and> cfg_palette ghost_config = [''#1e4a8c80'']
   \<and> (\<exists>g. generate_pixel_grid runtime_a ghost_config 1 = Inr g \<and> length g = nat 32
         \<and> list_all (\<lambda>row. length row = nat 16 \<and> list_all (\<lambda>px. alpha px = 255) row) g)
   \<and> in_inset (nat 16) (nat 32) 2 2
   \<and> (\<exists>px. pixel_at (generate_pixel_grid runtime_a ghost_config 0) 2 2 = Some px \<and> alpha px = 255)"
proof -
  have c: "cfg_type ghost_config = ''npc''" "cfg_size ghost_config = (16, 32)"
    "cfg_palette ghost_config = [''#1e4a8c80'']" by (simp_all add: ghost_config_def)
  have i: "in_inset (nat 16) (nat 32) 2 2" by (simp add: in_inset_def)
  note t = rotate_hue_discards_alpha [of "''#1e4a8c80''" 30 ghost_config 1 16 32 runtime_a 2 2]
  show ?thesis using t valid_ghost hex_ghost c i by simp
qed

section \<open>The seed of a tile\<close>

lemma build_grid_constant:
  assumes "\<And>y x. y < h \<Longrightarrow> x < w \<Longrightarrow> f y x = Inr c" "y < h" "x < w"
  shows "pixel_at (build_grid w h f) y x = Some c"
proof -
  from build_grid_total [of h w f] assms(1) obtain g where g: "build_grid w h f = Inr g" by blast
  note bg = build_grid_Inr [OF g]
  have "f y x = Inr (g ! y ! x)" using bg(3) assms(2,3) by simp
  then have "g ! y ! x = c" using assms by simp
  then show ?thesis unfolding g using bg(1) bg(2) [OF assms(2)] assms(2,3) by (simp add: pixel_at_def)
qed

lemma tile_pixel_a:
  "tile_pixel runtime_a 0 [''#000000'', ''#ffffff''] 4 4 y x = Inr (0, 0, 0, 255)"
  by (simp add: tile_pixel_def runtime_a_def Let_def py_int_def clip_def hex_black to_pixel_def)

lemma tile_pixel_b:
  "tile_pixel runtime_b 1 [''#000000'', ''#ffffff''] 4 4 y x = Inr (255, 255, 255, 255)"
  by (simp add: tile_pixel_def runtime_b_def Let_def py_int_def clip_def hex_white to_pixel_def)

lemma hash_a: "py_hash runtime_a s = 0"
  by (simp add: runtime_a_def)

lemma hash_b: "py_hash runtime_b s = 1"
  by (simp add: runtime_b_def)

lemma bind_err_Inr: "bind_err m Inr = m"
  by (cases m) simp_all

lemma grass_a: "generate_pixel_grid runtime_a grass_config 0
    = build_grid 4 4 (tile_pixel runtime_a 0 [''#000000'', ''#ffffff''] 4 4)"
  by (simp add: generate_pixel_grid_def grass_config_def variant_palette_def tile_seed_def
      hash_a Let_def bind_err_Inr)

lemma grass_b: "generate_pixel_grid runtime_b grass_config 0
    = build_grid 4 4 (tile_pixel runtime_b 1 [''#000000'', ''#ffffff''] 4 4)"
  by (simp add: generate_pixel_grid_def grass_config_def variant_palette_def tile_seed_def
      hash_b Let_def bind_err_Inr)

lemma seeded_grid_independent_of_hash:
  assumes "noise2 rt1 = noise2 rt2" "tile_seed rt1 config = tile_seed rt2 config"
  shows "generate_pixel_grid rt1 config variant_idx = generate_pixel_grid rt2 config variant_idx"
proof -
  have tp: "tile_pixel rt1 seed = tile_pixel rt2 seed" for seed
    by (intro ext) (simp add: tile_pixel_def assms(1))
  show ?thesis
    by (simp add: generate_pixel_grid_def assms(2) tp Let_def split: prod.split cong: if_cong)
qed

lemma explicit_seed: "cfg_noise_seed config = Some s \<Longrightarrow> tile_seed rt config = s"
  by (simp add: tile_seed_def)

text \<open>
  C3, at the failing input: an unseeded tile, generated in two runs that have the same
  noise source and differ in the interpreter's hash of the name. The seeds differ and
  so do the grids.
\<close>

theorem unseeded_tile_depends_on_hash:
  "noise2 runtime_a = noise2 runtime_b
   \<and> tile_seed runtime_a grass_config = 0 \<and> tile_seed runtime_b grass_config = 1
   \<and> pixel_at (generate_pixel_grid runtime_a grass_config 0) 0 0 = Some (0, 0, 0, 255)
   \<and> pixel_at (generate_pixel_grid runtime_b grass_config 0) 0 0 = Some (255, 255, 255, 255)
   \<and> generate_pixel_grid runtime_a grass_config 0 \<noteq> generate_pixel_grid runtime_b grass_config 0"
proof -
  have a: "pixel_at (generate_pixel_grid runtime_a grass_config 0) 0 0 = Some (0, 0, 0, 255)"
    unfolding grass_a by (rule build_grid_constant) (simp_all add: tile_pixel_a)
  have b: "pixel_at (generate_pixel_grid runtime_b grass_config 0) 0 0 = Some (255, 255, 255, 255)"
    unfolding grass_b by (rule build_grid_constant) (simp_all add: tile_pixel_b)
  have "generate_pixel_grid runtime_a grass_config 0 \<noteq> generate_pixel_grid runtime_b grass_config 0"
  proof
    assume "generate_pixel_grid runtime_a grass_config 0 = generate_pixel_grid runtime_b grass_config 0"
    with a b show False by simp
  qed
  moreover have "noise2 runtime_a = noise2 runtime_b" by (simp add: runtime_a_def runtime_b_def)
  moreover have "tile_seed runtime_a grass_config = 0" "tile_seed runtime_b grass_config = 1"
    by (simp_all add: tile_seed_def grass_config_def hash_a hash_b)
  ultimately show ?thesis using a b by simp
qed
end
